theory Spec2Isabelle
  imports Main
begin

section \<open>The ShaperDashboard component of shaper-react\<close>

text \<open>
  The development follows the latest variant of the component (the one with the
  \<^verbatim>\<open>onLoadError\<close> prop). The component is a React function component: its state lives
  in refs and in one state variable, and its behaviour is a list of effects, each with a
  dependency array. Every effect is a function on the component's state below; a commit
  runs the effects whose dependencies changed, in the order in which the source declares
  them, after the cleanups of those effects.
\<close>

subsection \<open>Variables snapshots and \<^verbatim>\<open>JSON.stringify\<close>\<close>

text \<open>
  \<^verbatim>\<open>ShaperDashboardVars = Record<string, string | string[]> | undefined\<close>.
  An object is the list of its own properties in enumeration order, which is the order in
  which \<^verbatim>\<open>JSON.stringify\<close> writes them. Characters are 8-bit code units.
\<close>

datatype var_value = Str string | StrList "string list"

type_synonym vars_obj = "(string \<times> var_value) list"

text \<open>The two-character escapes of \<^verbatim>\<open>JSON.stringify\<close>: backspace, tab, line feed,
  form feed, carriage return, the double quote and the backslash.\<close>

definition shortEscape :: "char \<Rightarrow> char option" where
  "shortEscape c =
     (if c = CHR 0x08 then Some (CHR ''b'')
      else if c = CHR 0x09 then Some (CHR ''t'')
      else if c = CHR 0x0A then Some (CHR ''n'')
      else if c = CHR 0x0C then Some (CHR ''f'')
      else if c = CHR 0x0D then Some (CHR ''r'')
      else if c = CHR 0x22 then Some (CHR 0x22)
      else if c = CHR 0x5C then Some (CHR 0x5C)
      else None)"

definition hexDigit :: "nat \<Rightarrow> char" where
  "hexDigit n = ''0123456789abcdef'' ! (n mod 16)"

definition escapeChar :: "char \<Rightarrow> string" where
  "escapeChar c =
     (case shortEscape c of
        Some e \<Rightarrow> [CHR 0x5C, e]
      | None \<Rightarrow>
          if (of_char c :: nat) < 32
          then [CHR 0x5C, CHR ''u'', CHR ''0'', CHR ''0'',
                hexDigit (of_char c div 16), hexDigit (of_char c)]
          else [c])"

definition quoteJSONString :: "string \<Rightarrow> string" where
  "quoteJSONString s = CHR 0x22 # concat (map escapeChar s) @ [CHR 0x22]"

fun commaSep :: "string list \<Rightarrow> string" where
  "commaSep [] = []"
| "commaSep [x] = x"
| "commaSep (x # y # ys) = x @ CHR '','' # commaSep (y # ys)"

fun valueJSON :: "var_value \<Rightarrow> string" where
  "valueJSON (Str s) = quoteJSONString s"
| "valueJSON (StrList xs) = CHR ''['' # commaSep (map quoteJSONString xs) @ [CHR '']'']"

definition propertyJSON :: "string \<times> var_value \<Rightarrow> string" where
  "propertyJSON kv = quoteJSONString (fst kv) @ CHR '':'' # valueJSON (snd kv)"

definition objectJSON :: "vars_obj \<Rightarrow> string" where
  "objectJSON ob = CHR ''{'' # commaSep (map propertyJSON ob) @ [CHR ''}'']"

text \<open>\<^verbatim>\<open>JSON.stringify(undefined)\<close> is \<^verbatim>\<open>undefined\<close>, not a string.\<close>

definition jsonStringify :: "vars_obj option \<Rightarrow> string option" where
  "jsonStringify v = map_option objectJSON v"

subsection \<open>Props, observable calls and the page\<close>

text \<open>
  Functions and objects handed in by the host are compared by identity
  (\<^verbatim>\<open>Object.is\<close> in React's dependency check), so a function is its identity and the
  \<^verbatim>\<open>vars\<close> prop is a reference into a store of immutable objects; strings are compared
  by value. \<^verbatim>\<open>onLoadError\<close> is \<open>None\<close> when the host omits it; the default parameter
  \<^verbatim>\<open>() => { }\<close> then makes a new function at every render.
\<close>

type_synonym fn = nat
type_synonym ref = nat
type_synonym store = "ref \<Rightarrow> vars_obj"

record ShaperDashboardProps =
  id_prop :: string
  baseUrl :: string
  jwt :: "string option"
  refreshJwt :: fn
  vars :: "ref option"
  onVarsChanged :: "fn option"
  onLoadError :: "fn option"

text \<open>
  What a component does to the outside, in order: the call of the factory
  \<^verbatim>\<open>window.shaper.dashboard\<close> (with the instance it returns, \<^verbatim>\<open>baseUrl\<close>,
  \<^verbatim>\<open>dashboardId\<close> and \<^verbatim>\<open>vars\<close>), \<^verbatim>\<open>update\<close> and \<^verbatim>\<open>destroy\<close> on an instance, the
  call of the refresh action (\<open>None\<close> is the initial \<^verbatim>\<open>() => { }\<close>), the call of a
  promise's resolver, and the calls of the host's two callbacks.
\<close>

datatype call =
    Dashboard nat string string "ref option"
  | Update nat "ref option"
  | Destroy nat
  | Refresh "fn option"
  | Resolve nat string
  | LoadError "fn option" string
  | VarsChanged fn "ref option"

datatype script_status = Pending | Loaded | Failed

text \<open>A script element that a component appended to the document: its \<^verbatim>\<open>src\<close>, whether
  its load or error event has fired, and the handlers on it in the order of attachment.
  A handler is the pair of a load and an error handler made by one run of the
  script-loading effect: it belongs to a component and has the script URL of that run in
  its closure.\<close>

record script_tag =
  src :: string
  status :: script_status
  listeners :: "(nat \<times> string) list"

text \<open>
  What \<^verbatim>\<open>document.querySelector\<close> gives: it throws, or it returns \<^verbatim>\<open>null\<close> or an element,
  which is one of the script elements above (by its position in the document) or another
  element of the document.
\<close>

datatype error = SyntaxError

datatype element = Script nat | Other

text \<open>
  The page: \<open>factory\<close> is the truth value of \<^verbatim>\<open>window.shaper?.dashboard\<close>; \<open>scripts\<close> are the
  script elements with a \<^verbatim>\<open>src\<close> attribute, in document order (the document starts without
  any, and only the components append them); \<open>others\<close> are the handlers that were attached
  to other elements; \<open>engine\<close> is what the browser answers to a selector that is more than
  one test of the \<^verbatim>\<open>src\<close> attribute, see \<open>querySelector\<close> below.
\<close>

record page =
  factory :: bool
  scripts :: "script_tag list"
  others :: "(nat \<times> string) list"
  engine :: "error + element option"

record component =
  props :: ShaperDashboardProps
  scriptLoaded :: bool
  setScriptLoadedQueued :: bool
  mounted :: bool
  containerRef :: bool
  dashboardRef :: "nat option"
  cleanup :: bool
  resolveJwtRef :: "nat list"
  refreshRef :: "fn option"
  varsRef :: "ref option"
  varsJsonRef :: "string option"
  onVarsChangedRef :: "fn option"
  onLoadErrorRef :: "fn option"
  promises :: nat
  instances :: nat
  calls :: "call list"

text \<open>
  \<open>props\<close> and \<open>scriptLoaded\<close> are the values of the latest render (the ones the effects'
  closures and dependency arrays saw); \<open>cleanup\<close> says that the latest run of the
  initialising effect returned its cleanup function; \<open>promises\<close> and \<open>instances\<close> count the
  promises and instances made so far and name the next one.
\<close>

definition initial :: "ShaperDashboardProps \<Rightarrow> component" where
  "initial p =
     \<lparr> props = p, scriptLoaded = False, setScriptLoadedQueued = False, mounted = True,
       containerRef = True, dashboardRef = None, cleanup = False, resolveJwtRef = [],
       refreshRef = None, varsRef = None, varsJsonRef = None, onVarsChangedRef = None,
       onLoadErrorRef = onLoadError p, promises = 0, instances = 0, calls = [] \<rparr>"

subsection \<open>The effects\<close>

definition refreshJwtEffect :: "ShaperDashboardProps \<Rightarrow> component \<Rightarrow> component" where
  "refreshJwtEffect p cs = cs\<lparr>refreshRef := Some (refreshJwt p)\<rparr>"

definition onLoadErrorEffect :: "ShaperDashboardProps \<Rightarrow> component \<Rightarrow> component" where
  "onLoadErrorEffect p cs = cs\<lparr>onLoadErrorRef := onLoadError p\<rparr>"

text \<open>\<^verbatim>\<open>if (jwt)\<close>: \<^verbatim>\<open>undefined\<close> and the empty string are falsy.\<close>

definition jwtEffect :: "ShaperDashboardProps \<Rightarrow> component \<Rightarrow> component" where
  "jwtEffect p cs =
     (case jwt p of
        None \<Rightarrow> cs
      | Some j \<Rightarrow>
          if j = [] then cs
          else cs\<lparr>calls := calls cs @ map (\<lambda>r. Resolve r j) (resolveJwtRef cs),
                  resolveJwtRef := []\<rparr>)"

definition scriptUrl :: "string \<Rightarrow> string" where
  "scriptUrl b = b @ ''/embed/shaper.js''"

text \<open>
  \<^verbatim>\<open>document.querySelector(`script[src="${scriptUrl}"]`)\<close>. The URL is put between the
  quotes of the selector as it is. If it contains no double quote, no backslash, no line
  break (line feed, form feed, carriage return) and no NUL, then the text between the
  quotes is a CSS string whose value is the URL, the selector is one test of the \<^verbatim>\<open>src\<close>
  attribute, and the result is the first script element whose \<^verbatim>\<open>src\<close> is the URL, or
  \<^verbatim>\<open>null\<close>. Any other URL makes another selector: a backslash starts an escape, so that the
  value of the string is not the URL; a line break inside the string is a syntax error; a
  quote ends the string, and the rest of the URL is read as selector text. The answer of
  the browser is not computed for such a URL: it is the \<open>engine\<close> of the page, which can be
  any answer (an exception, \<^verbatim>\<open>null\<close>, any script element, another element).
\<close>

definition plain :: "string \<Rightarrow> bool" where
  "plain url \<longleftrightarrow>
     list_all (\<lambda>ch. ch \<notin> set [CHR 0x00, CHR 0x0A, CHR 0x0C, CHR 0x0D, CHR 0x22, CHR 0x5C]) url"

definition querySelector :: "string \<Rightarrow> page \<Rightarrow> error + element option" where
  "querySelector url pg =
     (if plain url
      then Inr (map_option Script
                  (find (\<lambda>k. src (scripts pg ! k) = url) [0 ..< length (scripts pg)]))
      else
        (case engine pg of
           Inr (Some (Script k)) \<Rightarrow>
             Inr (Some (if k < length (scripts pg) then Script k else Other))
         | answer \<Rightarrow> answer))"

definition addEventListener :: "nat \<times> string \<Rightarrow> script_tag \<Rightarrow> script_tag" where
  "addEventListener l t = t\<lparr>listeners := listeners t @ [l]\<rparr>"

text \<open>The script-loading effect. \<open>Inl\<close> is the exception of \<^verbatim>\<open>querySelector\<close>, which the
  effect does not catch.\<close>

definition loadScriptEffect ::
  "nat \<Rightarrow> ShaperDashboardProps \<Rightarrow> page \<times> component \<Rightarrow> error + page \<times> component" where
  "loadScriptEffect c p = (\<lambda>(pg, cs).
     if factory pg then Inr (pg, cs\<lparr>setScriptLoadedQueued := True\<rparr>)
     else
       (case querySelector (scriptUrl (baseUrl p)) pg of
          Inl e \<Rightarrow> Inl e
        | Inr (Some (Script k)) \<Rightarrow>
            Inr (pg\<lparr>scripts := (scripts pg)
                     [k := addEventListener (c, scriptUrl (baseUrl p)) (scripts pg ! k)]\<rparr>, cs)
        | Inr (Some Other) \<Rightarrow>
            Inr (pg\<lparr>others := others pg @ [(c, scriptUrl (baseUrl p))]\<rparr>, cs)
        | Inr None \<Rightarrow>
            Inr (pg\<lparr>scripts := scripts pg @
                     [\<lparr>src = scriptUrl (baseUrl p), status = Pending,
                       listeners = [(c, scriptUrl (baseUrl p))]\<rparr>]\<rparr>, cs)))"

definition varsEffect :: "store \<Rightarrow> ShaperDashboardProps \<Rightarrow> component \<Rightarrow> component" where
  "varsEffect objs p cs =
     (let s = jsonStringify (map_option objs (vars p)) in
      if s = varsJsonRef cs then cs
      else
        (case dashboardRef cs of
           None \<Rightarrow> cs\<lparr>varsRef := vars p, varsJsonRef := s\<rparr>
         | Some i \<Rightarrow> cs\<lparr>varsRef := vars p, varsJsonRef := s,
                         calls := calls cs @ [Update i (vars p)]\<rparr>))"

definition onVarsChangedEffect :: "ShaperDashboardProps \<Rightarrow> component \<Rightarrow> component" where
  "onVarsChangedEffect p cs = cs\<lparr>onVarsChangedRef := onVarsChanged p\<rparr>"

text \<open>The initialising effect, with the \<^verbatim>\<open>scriptLoaded\<close> of its render. It returns its
  cleanup function only when it has made an instance.\<close>

definition initDashboardEffect ::
  "ShaperDashboardProps \<Rightarrow> bool \<Rightarrow> page \<Rightarrow> component \<Rightarrow> component" where
  "initDashboardEffect p sl pg cs =
     (if \<not> sl \<or> \<not> factory pg \<or> \<not> containerRef cs \<or> dashboardRef cs \<noteq> None
      then cs\<lparr>cleanup := False\<rparr>
      else cs\<lparr>dashboardRef := Some (instances cs), instances := Suc (instances cs),
              calls := calls cs @
                [Dashboard (instances cs) (baseUrl p) (id_prop p) (varsRef cs)],
              cleanup := True\<rparr>)"

definition cleanupDashboard :: "component \<Rightarrow> component" where
  "cleanupDashboard cs =
     (case dashboardRef cs of
        None \<Rightarrow> cs
      | Some i \<Rightarrow> cs\<lparr>calls := calls cs @ [Destroy i], dashboardRef := None\<rparr>)"

text \<open>The two functions handed to the instance: \<^verbatim>\<open>getJwt\<close> returns the new promise, and
  \<^verbatim>\<open>onVarsChanged\<close> forwards to the host's callback when there is one.\<close>

definition getJwt :: "component \<Rightarrow> nat \<times> component" where
  "getJwt cs =
     (promises cs,
      cs\<lparr>resolveJwtRef := resolveJwtRef cs @ [promises cs], promises := Suc (promises cs),
         calls := calls cs @ [Refresh (refreshRef cs)]\<rparr>)"

definition forwardVarsChanged :: "ref option \<Rightarrow> component \<Rightarrow> component" where
  "forwardVarsChanged newVars cs =
     (case onVarsChangedRef cs of
        None \<Rightarrow> cs
      | Some f \<Rightarrow> cs\<lparr>calls := calls cs @ [VarsChanged f newVars]\<rparr>)"

subsection \<open>Commits\<close>

definition whenever :: "bool \<Rightarrow> ('a \<Rightarrow> 'a) \<Rightarrow> 'a \<Rightarrow> 'a" where
  "whenever b f x = (if b then f x else x)"

text \<open>Unmounting detaches the container ref and runs the cleanup that is registered.\<close>

definition unmount :: "component \<Rightarrow> component" where
  "unmount cs =
     (whenever (cleanup cs) cleanupDashboard cs)
       \<lparr>mounted := False, containerRef := False, cleanup := False\<rparr>"

text \<open>
  A commit of a render with props \<open>p\<close> and state \<open>sl\<close>. \<open>first\<close> is the mount, where every
  effect runs. Otherwise an effect runs when one of its dependencies differs from the
  previous render's. The cleanups of the effects that run again come first (only the
  initialising effect has one), then the effects in the order of the source.

  When the script-loading effect throws, React (18 and later) leaves out the remaining
  effects of the component and unmounts it, with the error boundary above it or with the
  whole root.
\<close>

definition initDeps :: "bool \<Rightarrow> ShaperDashboardProps \<Rightarrow> bool \<Rightarrow> component \<Rightarrow> bool" where
  "initDeps first p sl cs \<longleftrightarrow>
     first \<or> scriptLoaded cs \<noteq> sl \<or> baseUrl (props cs) \<noteq> baseUrl p
       \<or> id_prop (props cs) \<noteq> id_prop p"

definition commit ::
  "store \<Rightarrow> bool \<Rightarrow> nat \<Rightarrow> ShaperDashboardProps \<Rightarrow> bool \<Rightarrow> page \<times> component \<Rightarrow>
   page \<times> component" where
  "commit objs first c p sl = (\<lambda>(pg, cs).
     let old = props cs;
         again = initDeps first p sl cs;
         cs1 = whenever (again \<and> cleanup cs) cleanupDashboard cs;
         cs2 = whenever (first \<or> refreshJwt old \<noteq> refreshJwt p) (refreshJwtEffect p) cs1;
         cs3 = whenever (first \<or> onLoadError old \<noteq> onLoadError p \<or> onLoadError p = None)
                 (onLoadErrorEffect p) cs2;
         cs4 = whenever (first \<or> jwt old \<noteq> jwt p) (jwtEffect p) cs3
     in
       (case (if first \<or> baseUrl old \<noteq> baseUrl p then loadScriptEffect c p (pg, cs4)
              else Inr (pg, cs4)) of
          Inl e \<Rightarrow> (pg, unmount (cs4\<lparr>props := p, scriptLoaded := sl\<rparr>))
        | Inr pc5 \<Rightarrow>
            let cs6 = whenever (first \<or> vars old \<noteq> vars p) (varsEffect objs p) (snd pc5);
                cs7 = whenever (first \<or> onVarsChanged old \<noteq> onVarsChanged p)
                        (onVarsChangedEffect p) cs6;
                cs8 = whenever again (initDashboardEffect p sl (fst pc5)) cs7
            in (fst pc5, cs8\<lparr>props := p, scriptLoaded := sl\<rparr>)))"

text \<open>
  \<^verbatim>\<open>setScriptLoaded(true)\<close> queues a state update. When the queue is processed the
  component renders again, with the same props, if it is still mounted and the state
  really changes.
\<close>

definition flushState :: "store \<Rightarrow> nat \<Rightarrow> page \<times> component \<Rightarrow> page \<times> component" where
  "flushState objs c = (\<lambda>(pg, cs).
     if setScriptLoadedQueued cs then
       (if mounted cs \<and> \<not> scriptLoaded cs
        then apsnd (\<lambda>cs'. cs'\<lparr>setScriptLoadedQueued := False\<rparr>)
               (commit objs False c (props cs) True (pg, cs))
        else (pg, cs\<lparr>setScriptLoadedQueued := False\<rparr>))
     else (pg, cs))"

definition mount :: "store \<Rightarrow> nat \<Rightarrow> ShaperDashboardProps \<Rightarrow> page \<Rightarrow> page \<times> component" where
  "mount objs c p pg = flushState objs c (commit objs True c p False (pg, initial p))"

definition render ::
  "store \<Rightarrow> nat \<Rightarrow> ShaperDashboardProps \<Rightarrow> page \<times> component \<Rightarrow> page \<times> component" where
  "render objs c p = (\<lambda>(pg, cs).
     flushState objs c (commit objs False c p (scriptLoaded cs) (pg, cs)))"

text \<open>The handlers on an element: \<^verbatim>\<open>load\<close> sets the state, \<^verbatim>\<open>error\<close> calls the
  current \<^verbatim>\<open>onLoadError\<close> with the message, which has the handler's own script URL.\<close>

definition onload :: "store \<Rightarrow> nat \<Rightarrow> page \<times> component \<Rightarrow> page \<times> component" where
  "onload objs c = (\<lambda>(pg, cs). flushState objs c (pg, cs\<lparr>setScriptLoadedQueued := True\<rparr>))"

definition loadErrorMessage :: "string \<Rightarrow> string" where
  "loadErrorMessage url = ''Failed to load Shaper script from '' @ url"

definition onerror :: "string \<Rightarrow> component \<Rightarrow> component" where
  "onerror url cs = cs\<lparr>calls := calls cs @ [LoadError (onLoadErrorRef cs) (loadErrorMessage url)]\<rparr>"

subsection \<open>The page with its components\<close>

record system =
  page :: page
  comps :: "nat \<Rightarrow> component option"

definition start :: system where
  "start = \<lparr> page = \<lparr>factory = False, scripts = [], others = [], engine = Inr None\<rparr>,
             comps = (\<lambda>c. None) \<rparr>"

text \<open>
  What can happen: a component is mounted, rendered again by its parent with new props,
  or unmounted; its instance asks for a token or reports changed variables; a pending
  script element (given by its position) fires its load event (after the script ran, which
  defined the factory or not) or its error event; the browser's answer to the selectors
  that are not computed here changes; another element with handlers on it fires a load or
  an error event for one of them.
\<close>

datatype event =
    Mount nat ShaperDashboardProps
  | Render nat ShaperDashboardProps
  | Unmount nat
  | GetJwt nat
  | InstanceVarsChanged nat "ref option"
  | ScriptLoaded nat bool
  | ScriptError nat
  | Answer "error + element option"
  | OtherLoaded nat
  | OtherError nat

definition put :: "nat \<Rightarrow> page \<times> component \<Rightarrow> system \<Rightarrow> system" where
  "put c pc s = s\<lparr>page := fst pc, comps := (comps s)(c \<mapsto> snd pc)\<rparr>"

definition notifyLoad :: "store \<Rightarrow> nat \<times> string \<Rightarrow> system \<Rightarrow> system" where
  "notifyLoad objs l s =
     (case comps s (fst l) of
        None \<Rightarrow> s
      | Some cs \<Rightarrow> put (fst l) (onload objs (fst l) (page s, cs)) s)"

definition notifyError :: "nat \<times> string \<Rightarrow> system \<Rightarrow> system" where
  "notifyError l s =
     (case comps s (fst l) of
        None \<Rightarrow> s
      | Some cs \<Rightarrow> put (fst l) (page s, onerror (snd l) cs) s)"

definition pending :: "nat \<Rightarrow> page \<Rightarrow> bool" where
  "pending k pg \<longleftrightarrow> k < length (scripts pg) \<and> status (scripts pg ! k) = Pending"

definition settle :: "nat \<Rightarrow> script_status \<Rightarrow> bool \<Rightarrow> page \<Rightarrow> page" where
  "settle k st defines pg =
     pg\<lparr>factory := factory pg \<or> defines,
        scripts := (scripts pg)[k := (scripts pg ! k)\<lparr>status := st\<rparr>]\<rparr>"

fun step :: "store \<Rightarrow> event \<Rightarrow> system \<Rightarrow> system" where
  "step objs (Mount c p) s =
     (case comps s c of
        None \<Rightarrow> put c (mount objs c p (page s)) s
      | Some cs \<Rightarrow> s)"
| "step objs (Render c p) s =
     (case comps s c of
        None \<Rightarrow> s
      | Some cs \<Rightarrow> if mounted cs then put c (render objs c p (page s, cs)) s else s)"
| "step objs (Unmount c) s =
     (case comps s c of
        None \<Rightarrow> s
      | Some cs \<Rightarrow> if mounted cs then put c (page s, unmount cs) s else s)"
| "step objs (GetJwt c) s =
     (case comps s c of
        None \<Rightarrow> s
      | Some cs \<Rightarrow> put c (page s, snd (getJwt cs)) s)"
| "step objs (InstanceVarsChanged c v) s =
     (case comps s c of
        None \<Rightarrow> s
      | Some cs \<Rightarrow> put c (page s, forwardVarsChanged v cs) s)"
| "step objs (ScriptLoaded k defines) s =
     (if pending k (page s)
      then fold (notifyLoad objs) (listeners (scripts (page s) ! k))
             (s\<lparr>page := settle k Loaded defines (page s)\<rparr>)
      else s)"
| "step objs (ScriptError k) s =
     (if pending k (page s)
      then fold notifyError (listeners (scripts (page s) ! k))
             (s\<lparr>page := settle k Failed False (page s)\<rparr>)
      else s)"
| "step objs (Answer a) s = s\<lparr>page := (page s)\<lparr>engine := a\<rparr>\<rparr>"
| "step objs (OtherLoaded n) s =
     (if n < length (others (page s)) then notifyLoad objs (others (page s) ! n) s else s)"
| "step objs (OtherError n) s =
     (if n < length (others (page s)) then notifyError (others (page s) ! n) s else s)"

definition run :: "store \<Rightarrow> event list \<Rightarrow> system \<Rightarrow> system" where
  "run objs es s = fold (step objs) es s"

subsection \<open>The first version of the component\<close>







subsection \<open>Notions used in the statements\<close>

text \<open>
  \<open>truthy\<close> is JavaScript's truthiness of the \<^verbatim>\<open>jwt\<close> prop. \<open>pick\<close> and \<open>given\<close> are
  conditionals kept folded, so that the effect of a whole commit on one field can be
  written as one equation. \<open>undoes\<close>, \<open>makes\<close>, \<open>supplies\<close> and \<open>observes\<close> say what a commit
  is going to do: run the cleanup, call the factory, resolve the waiters, store a new
  variables snapshot; \<open>crashes\<close> says that its script-loading effect throws, and \<open>request\<close>
  is what that effect does to the page when it does not throw. \<open>resolutions\<close> and \<open>refreshes\<close> read a component's calls, and
  \<open>requests n\<close> is \<open>n\<close> calls of \<^verbatim>\<open>getJwt\<close> in a row, with the promises they returned.
\<close>

definition truthy :: "string option \<Rightarrow> bool" where
  "truthy j \<longleftrightarrow> j \<noteq> None \<and> j \<noteq> Some []"

definition optList :: "'a option \<Rightarrow> 'a list" where
  "optList x = (case x of None \<Rightarrow> [] | Some a \<Rightarrow> [a])"

definition pick :: "bool \<Rightarrow> 'a \<Rightarrow> 'a \<Rightarrow> 'a" where
  "pick b x y = (if b then x else y)"

definition given :: "bool \<Rightarrow> 'a list \<Rightarrow> 'a list" where
  "given b xs = (if b then xs else [])"

definition undoes :: "bool \<Rightarrow> ShaperDashboardProps \<Rightarrow> bool \<Rightarrow> component \<Rightarrow> bool" where
  "undoes first p sl cs \<longleftrightarrow> initDeps first p sl cs \<and> cleanup cs"

definition makes :: "bool \<Rightarrow> ShaperDashboardProps \<Rightarrow> bool \<Rightarrow> page \<Rightarrow> component \<Rightarrow> bool" where
  "makes first p sl pg cs \<longleftrightarrow>
     initDeps first p sl cs \<and> sl \<and> factory pg \<and> containerRef cs
       \<and> pick (undoes first p sl cs) None (dashboardRef cs) = None"

definition supplies :: "bool \<Rightarrow> ShaperDashboardProps \<Rightarrow> component \<Rightarrow> bool" where
  "supplies first p cs \<longleftrightarrow> (first \<or> jwt (props cs) \<noteq> jwt p) \<and> truthy (jwt p)"

definition observes :: "store \<Rightarrow> bool \<Rightarrow> ShaperDashboardProps \<Rightarrow> component \<Rightarrow> bool" where
  "observes objs first p cs \<longleftrightarrow>
     (first \<or> vars (props cs) \<noteq> vars p)
       \<and> jsonStringify (map_option objs (vars p)) \<noteq> varsJsonRef cs"

definition request :: "nat \<Rightarrow> string \<Rightarrow> page \<Rightarrow> page" where
  "request c url pg =
     (if factory pg then pg
      else
        (case querySelector url pg of
           Inl e \<Rightarrow> pg
         | Inr (Some (Script k)) \<Rightarrow>
             pg\<lparr>scripts := (scripts pg)[k := addEventListener (c, url) (scripts pg ! k)]\<rparr>
         | Inr (Some Other) \<Rightarrow> pg\<lparr>others := others pg @ [(c, url)]\<rparr>
         | Inr None \<Rightarrow>
             pg\<lparr>scripts := scripts pg @
                  [\<lparr>src = url, status = Pending, listeners = [(c, url)]\<rparr>]\<rparr>))"

definition throws :: "string \<Rightarrow> page \<Rightarrow> bool" where
  "throws url pg \<longleftrightarrow> \<not> factory pg \<and> querySelector url pg = Inl SyntaxError"

definition crashes :: "bool \<Rightarrow> ShaperDashboardProps \<Rightarrow> page \<Rightarrow> component \<Rightarrow> bool" where
  "crashes first p pg cs \<longleftrightarrow>
     (first \<or> baseUrl (props cs) \<noteq> baseUrl p) \<and> throws (scriptUrl (baseUrl p)) pg"

text \<open>The script URLs of the handlers of one component among the handlers on an element.\<close>

definition heard :: "nat \<Rightarrow> (nat \<times> string) list \<Rightarrow> string list" where
  "heard c ls = map snd (filter (\<lambda>l. fst l = c) ls)"

definition rerenders :: "component \<Rightarrow> bool" where
  "rerenders cs \<longleftrightarrow> setScriptLoadedQueued cs \<and> mounted cs \<and> \<not> scriptLoaded cs"

fun resolution :: "call \<Rightarrow> (nat \<times> string) list" where
  "resolution (Resolve r j) = [(r, j)]"
| "resolution x = []"

definition resolutions :: "call list \<Rightarrow> (nat \<times> string) list" where
  "resolutions cl = concat (map resolution cl)"

fun refreshed :: "call \<Rightarrow> fn option list" where
  "refreshed (Refresh f) = [f]"
| "refreshed x = []"

definition refreshes :: "call list \<Rightarrow> fn option list" where
  "refreshes cl = concat (map refreshed cl)"

fun requests :: "nat \<Rightarrow> component \<Rightarrow> nat list \<times> component" where
  "requests 0 cs = ([], cs)"
| "requests (Suc n) cs =
     (let (r, cs1) = getJwt cs; (rs, cs2) = requests n cs1 in (r # rs, cs2))"

fun updated :: "call \<Rightarrow> (nat \<times> ref option) list" where
  "updated (Update i v) = [(i, v)]"
| "updated x = []"

definition updates :: "call list \<Rightarrow> (nat \<times> ref option) list" where
  "updates cl = concat (map updated cl)"

fun construction :: "call \<Rightarrow> nat list" where
  "construction (Dashboard i b d v) = [i]"
| "construction x = []"

definition constructed :: "call list \<Rightarrow> nat list" where
  "constructed cl = concat (map construction cl)"

fun destruction :: "call \<Rightarrow> nat list" where
  "destruction (Destroy i) = [i]"
| "destruction x = []"

definition destroyed :: "call list \<Rightarrow> nat list" where
  "destroyed cl = concat (map destruction cl)"

definition wellFormed :: "component \<Rightarrow> bool" where
  "wellFormed cs \<longleftrightarrow>
     cleanup cs = (dashboardRef cs \<noteq> None)
     \<and> (dashboardRef cs = None \<or> mounted cs)
     \<and> (instances cs = 0 \<or> scriptLoaded cs)
     \<and> constructed (calls cs) = destroyed (calls cs) @ optList (dashboardRef cs)
     \<and> constructed (calls cs) = [0 ..< instances cs]"

definition each :: "(component \<Rightarrow> bool) \<Rightarrow> system \<Rightarrow> bool" where
  "each I s \<longleftrightarrow> (\<forall>c cs. comps s c = Some cs \<longrightarrow> I cs)"

fun propsOf :: "nat \<Rightarrow> event \<Rightarrow> ShaperDashboardProps option" where
  "propsOf c (Mount d p) = (if d = c then Some p else None)"
| "propsOf c (Render d p) = (if d = c then Some p else None)"
| "propsOf c e = None"

definition keepsInstance :: "string \<Rightarrow> string \<Rightarrow> component \<Rightarrow> bool" where
  "keepsInstance i b cs \<longleftrightarrow>
     id_prop (props cs) = i \<and> baseUrl (props cs) = b \<and> wellFormed cs
     \<and> instances cs \<le> 1 \<and> (\<not> mounted cs \<or> destroyed (calls cs) = [])"

fun factoryVar :: "call \<Rightarrow> ref option list" where
  "factoryVar (Dashboard i b d v) = [v]"
| "factoryVar x = []"

definition factoryVars :: "call list \<Rightarrow> ref option list" where
  "factoryVars cl = concat (map factoryVar cl)"


definition varsKept :: "store \<Rightarrow> component \<Rightarrow> bool" where
  "varsKept objs cs \<longleftrightarrow>
     \<not> mounted cs
     \<or> map_option objs (varsRef cs) = map_option objs (vars (props cs))
       \<and> varsJsonRef cs = jsonStringify (map_option objs (varsRef cs))"

definition passesLatest :: "store \<Rightarrow> component \<Rightarrow> component \<Rightarrow> bool" where
  "passesLatest objs cs cs' \<longleftrightarrow>
     varsKept objs cs'
     \<and> (\<exists>new. calls cs' = calls cs @ new
           \<and> list_all (\<lambda>v. map_option objs v = map_option objs (vars (props cs'))) (factoryVars new))"

definition waiting :: "ShaperDashboardProps \<Rightarrow> component \<Rightarrow> bool" where
  "waiting p cs \<longleftrightarrow>
     calls cs = [] \<and> \<not> scriptLoaded cs \<and> mounted cs \<and> onLoadErrorRef cs = onLoadError p
     \<and> \<not> setScriptLoadedQueued cs"


definition listenersExist :: "system \<Rightarrow> bool" where
  "listenersExist s \<longleftrightarrow>
     (\<forall>k < length (scripts (page s)).
        \<forall>l \<in> set (listeners (scripts (page s) ! k)). comps s (fst l) \<noteq> None)"


fun loadError :: "call \<Rightarrow> string list" where
  "loadError (LoadError f m) = [m]"
| "loadError x = []"

definition loadErrors :: "call list \<Rightarrow> string list" where
  "loadErrors cl = concat (map loadError cl)"

definition hears :: "nat \<Rightarrow> page \<Rightarrow> nat \<Rightarrow> string list" where
  "hears c pg k = heard c (listeners (scripts pg ! k))"

definition silent :: "nat \<Rightarrow> page \<Rightarrow> bool" where
  "silent c pg \<longleftrightarrow>
     (\<forall>k < length (scripts pg). hears c pg k = []) \<and> heard c (others pg) = []"

definition single :: "nat \<Rightarrow> string \<Rightarrow> page \<Rightarrow> bool" where
  "single c b pg \<longleftrightarrow>
     (\<forall>k < length (scripts pg). hears c pg k = [] \<or> hears c pg k = [scriptUrl b])
   \<and> set (heard c (others pg)) \<subseteq> {scriptUrl b}
   \<and> (\<forall>k < length (scripts pg). \<forall>j < length (scripts pg).
        hears c pg k \<noteq> [] \<longrightarrow> hears c pg j \<noteq> [] \<longrightarrow> k = j)
   \<and> (\<forall>k < length (scripts pg). hears c pg k \<noteq> [] \<longrightarrow> heard c (others pg) = [])"


definition settled :: "nat \<Rightarrow> nat \<Rightarrow> system \<Rightarrow> bool" where
  "settled c k s \<longleftrightarrow>
     k < length (scripts (page s)) \<and> status (scripts (page s) ! k) \<noteq> Pending
     \<and> hears c (page s) k \<noteq> []"

definition mounts :: "(nat \<Rightarrow> ShaperDashboardProps) \<Rightarrow> nat list \<Rightarrow> event list" where
  "mounts pf cs = map (\<lambda>c. Mount c (pf c)) cs"

definition gained :: "string \<Rightarrow> nat list \<Rightarrow> script_tag option \<Rightarrow> script_tag" where
  "gained url cs old =
     (case old of
        None \<Rightarrow> \<lparr>src = url, status = Pending, listeners = map (\<lambda>c. (c, url)) cs\<rparr>
      | Some t \<Rightarrow> t\<lparr>listeners := listeners t @ map (\<lambda>c. (c, url)) cs\<rparr>)"

text \<open>A concrete page for the examples: one component whose script has loaded.\<close>

definition exampleStore :: store where
  "exampleStore r =
     (if r = 1 then [(''a'', Str ''1''), (''b'', Str ''2'')]
      else if r = 2 then [(''b'', Str ''2''), (''a'', Str ''1'')]
      else if r = 3 then [(''a'', Str ''1''), (''b'', Str ''2'')]
      else [])"

definition exampleProps :: ShaperDashboardProps where
  "exampleProps =
     \<lparr> id_prop = ''d1'', baseUrl = ''http://h'', jwt = None, refreshJwt = 7, vars = Some 1,
       onVarsChanged = None, onLoadError = Some 9 \<rparr>"


definition exampleLive :: component where
  "exampleLive =
     the (comps (run exampleStore [Mount 0 exampleProps, ScriptLoaded 0 True] start) 0)"

definition examplePage :: page where
  "examplePage = page (run exampleStore [Mount 0 exampleProps, ScriptLoaded 0 True] start)"



definition exampleCallers :: "nat \<Rightarrow> ShaperDashboardProps" where
  "exampleCallers c = exampleProps\<lparr>onLoadError := Some (10 + c)\<rparr>"





section \<open>Properties\<close>

subsection \<open>\<^verbatim>\<open>JSON.stringify\<close> is injective on variables snapshots\<close>

text \<open>
  The escapes form a prefix-free code that never starts with a double quote, so a quoted
  string can be read back from the front of any text; lists and objects follow.
\<close>


lemma hexDigit_inj: "a < 16 \<Longrightarrow> b < 16 \<Longrightarrow> hexDigit a = hexDigit b \<Longrightarrow> a = b"
proof -
  assume a: "a < 16" and b: "b < 16" and e: "hexDigit a = hexDigit b"
  have d: "distinct ''0123456789abcdef''" by simp
  have l: "length ''0123456789abcdef'' = 16" by simp
  from e have "''0123456789abcdef'' ! a = ''0123456789abcdef'' ! b"
    using a b by (simp add: hexDigit_def)
  with d l a b show "a = b" by (metis nth_eq_iff_index_eq)
qed

lemma shortEscape_not_u: "shortEscape c = Some e \<Longrightarrow> e \<noteq> CHR ''u''"
  by (auto simp: shortEscape_def split: if_splits)

lemma shortEscape_inj: "shortEscape c = Some e \<Longrightarrow> shortEscape d = Some e \<Longrightarrow> c = d"
  by (auto simp: shortEscape_def split: if_splits)

lemma shortEscape_None: "shortEscape c = None \<Longrightarrow> c \<noteq> CHR 0x22 \<and> c \<noteq> CHR 0x5C"
  by (auto simp: shortEscape_def split: if_splits)

lemma escapeChar_not_quote: "escapeChar c @ r \<noteq> CHR 0x22 # r'"
  by (auto simp: escapeChar_def dest: shortEscape_None split: option.splits)

lemma control_inj:
  assumes "(of_char c :: nat) < 32" "(of_char d :: nat) < 32"
    "hexDigit (of_char c div 16) = hexDigit (of_char d div 16)"
    "hexDigit (of_char c) = hexDigit (of_char d)"
  shows "c = d"
proof -
  let ?m = "of_char c :: nat" and ?n = "of_char d :: nat"
  have "?m div 16 = ?n div 16"
    using assms(1,2,3) by (intro hexDigit_inj) auto
  moreover have "hexDigit (?m mod 16) = hexDigit (?n mod 16)"
    using assms(4) by (simp add: hexDigit_def)
  then have "?m mod 16 = ?n mod 16"
    by (intro hexDigit_inj) auto
  ultimately have "?m = ?n"
    by (metis div_mult_mod_eq)
  then show ?thesis by simp
qed

lemma escapeChar_prefix_free:
  "escapeChar c @ r = escapeChar d @ r' \<Longrightarrow> c = d \<and> r = r'"
  by (auto simp: escapeChar_def split: option.splits if_splits
      dest: shortEscape_None shortEscape_not_u shortEscape_inj control_inj)

lemma escape_body_inj:
  "concat (map escapeChar s) @ CHR 0x22 # r = concat (map escapeChar t) @ CHR 0x22 # r'
   \<Longrightarrow> s = t \<and> r = r'"
proof (induction s arbitrary: t)
  case Nil
  then show ?case
    by (cases t) (auto dest: escapeChar_not_quote [THEN notE, OF sym])
next
  case (Cons c s)
  show ?case
  proof (cases t)
    case Nil
    with Cons.prems show ?thesis
      by (auto dest: escapeChar_not_quote [THEN notE])
  next
    case (Cons d t')
    with Cons.prems have
      "escapeChar c @ (concat (map escapeChar s) @ CHR 0x22 # r)
       = escapeChar d @ (concat (map escapeChar t') @ CHR 0x22 # r')"
      by simp
    then have "c = d" and
      "concat (map escapeChar s) @ CHR 0x22 # r = concat (map escapeChar t') @ CHR 0x22 # r'"
      by (auto dest: escapeChar_prefix_free)
    with Cons.IH [of t'] Cons show ?thesis by simp
  qed
qed

lemma quoteJSONString_inj:
  "quoteJSONString s @ r = quoteJSONString t @ r' \<Longrightarrow> s = t \<and> r = r'"
  using escape_body_inj [of s r t r'] by (simp add: quoteJSONString_def)

lemma quoteJSONString_hd: "\<exists>q. quoteJSONString s = CHR 0x22 # q"
  by (simp add: quoteJSONString_def)

lemma commaSep_Cons:
  "commaSep (x # xs) = x @ (if xs = [] then [] else CHR '','' # commaSep xs)"
  by (cases xs) simp_all

lemma commaSep_inj:
  assumes uniq: "\<And>a b r r'. f a @ r = f b @ r' \<Longrightarrow> a = b \<and> r = r'"
    and hd: "\<And>a. \<exists>q. f a = CHR 0x22 # q"
    and e: "e \<noteq> CHR '',''" "e \<noteq> CHR 0x22"
  shows "commaSep (map f xs) @ e # r = commaSep (map f ys) @ e # r' \<Longrightarrow> xs = ys \<and> r = r'"
proof (induction xs arbitrary: ys)
  case Nil
  show ?case
  proof (cases ys)
    case Nil
    with Nil.prems show ?thesis by simp
  next
    case (Cons y ys')
    obtain q where "f y = CHR 0x22 # q" using hd by blast
    with Nil.prems Cons e show ?thesis by (simp add: commaSep_Cons)
  qed
next
  case (Cons x xs)
  show ?case
  proof (cases ys)
    case Nil
    obtain q where "f x = CHR 0x22 # q" using hd by blast
    with Cons.prems Nil e show ?thesis by (simp add: commaSep_Cons)
  next
    case ys: (Cons y ys')
    let ?l = "(if xs = [] then [] else CHR '','' # commaSep (map f xs)) @ e # r"
    let ?r = "(if ys' = [] then [] else CHR '','' # commaSep (map f ys')) @ e # r'"
    from Cons.prems ys have "f x @ ?l = f y @ ?r"
      by (simp add: commaSep_Cons)
    then have xy: "x = y" and rest: "?l = ?r"
      using uniq by blast+
    show ?thesis
    proof (cases "xs = []")
      case True
      with rest e have "ys' = []" by (auto split: if_splits)
      with True rest xy ys show ?thesis by simp
    next
      case False
      with rest e have ne: "ys' \<noteq> []" by (auto split: if_splits)
      with False rest have
        "commaSep (map f xs) @ e # r = commaSep (map f ys') @ e # r'" by simp
      from Cons.IH [OF this] xy ys show ?thesis by simp
    qed
  qed
qed

lemma valueJSON_inj: "valueJSON v @ r = valueJSON w @ r' \<Longrightarrow> v = w \<and> r = r'"
proof (cases v; cases w)
  fix s t assume "v = Str s" "w = Str t" "valueJSON v @ r = valueJSON w @ r'"
  then show ?thesis by (auto dest: quoteJSONString_inj)
next
  fix xs ys assume "v = StrList xs" "w = StrList ys" "valueJSON v @ r = valueJSON w @ r'"
  then have "commaSep (map quoteJSONString xs) @ CHR '']'' # r
      = commaSep (map quoteJSONString ys) @ CHR '']'' # r'" by simp
  then have "xs = ys \<and> r = r'"
    by (rule commaSep_inj [rotated -1]) (auto dest: quoteJSONString_inj simp: quoteJSONString_hd)
  with \<open>v = StrList xs\<close> \<open>w = StrList ys\<close> show ?thesis by simp
qed (auto simp: quoteJSONString_def)

lemma propertyJSON_inj: "propertyJSON p @ r = propertyJSON q @ r' \<Longrightarrow> p = q \<and> r = r'"
proof -
  assume "propertyJSON p @ r = propertyJSON q @ r'"
  then have "quoteJSONString (fst p) @ (CHR '':'' # valueJSON (snd p) @ r)
    = quoteJSONString (fst q) @ (CHR '':'' # valueJSON (snd q) @ r')"
    by (simp add: propertyJSON_def)
  then have "fst p = fst q" and "valueJSON (snd p) @ r = valueJSON (snd q) @ r'"
    by (auto dest: quoteJSONString_inj)
  then show ?thesis by (auto dest: valueJSON_inj simp: prod_eq_iff)
qed

lemma propertyJSON_hd: "\<exists>q. propertyJSON p = CHR 0x22 # q"
  by (simp add: propertyJSON_def quoteJSONString_def)

lemma objectJSON_inj: "objectJSON a = objectJSON b \<Longrightarrow> a = b"
proof -
  assume "objectJSON a = objectJSON b"
  then have "commaSep (map propertyJSON a) @ CHR ''}'' # []
      = commaSep (map propertyJSON b) @ CHR ''}'' # []" by (simp add: objectJSON_def)
  then have "a = b \<and> ([]::string) = []"
    by (rule commaSep_inj [rotated -1])
      (auto dest: propertyJSON_inj simp: propertyJSON_hd)
  then show ?thesis by simp
qed

lemma jsonStringify_inj: "jsonStringify a = jsonStringify b \<longleftrightarrow> a = b"
  by (cases a; cases b) (auto simp: jsonStringify_def dest: objectJSON_inj)

subsection \<open>What a commit does, field by field\<close>

lemma whenever_cleanupDashboard:
  "whenever b cleanupDashboard cs =
     cs\<lparr>calls := calls cs @ given b (map Destroy (optList (dashboardRef cs))),
        dashboardRef := pick b None (dashboardRef cs)\<rparr>"
  by (simp add: whenever_def cleanupDashboard_def pick_def given_def optList_def split: option.splits)

lemma whenever_refreshJwtEffect:
  "whenever b (refreshJwtEffect p) cs =
     cs\<lparr>refreshRef := pick b (Some (refreshJwt p)) (refreshRef cs)\<rparr>"
  by (simp add: whenever_def refreshJwtEffect_def pick_def)

lemma whenever_onLoadErrorEffect:
  "whenever b (onLoadErrorEffect p) cs =
     cs\<lparr>onLoadErrorRef := pick b (onLoadError p) (onLoadErrorRef cs)\<rparr>"
  by (simp add: whenever_def onLoadErrorEffect_def pick_def)

lemma whenever_jwtEffect:
  "whenever b (jwtEffect p) cs =
     cs\<lparr>calls := calls cs @
          given (b \<and> truthy (jwt p)) (map (\<lambda>r. Resolve r (the (jwt p))) (resolveJwtRef cs)),
        resolveJwtRef := pick (b \<and> truthy (jwt p)) [] (resolveJwtRef cs)\<rparr>"
  by (simp add: whenever_def jwtEffect_def truthy_def pick_def given_def split: option.splits)

lemma error_eq [simp]: "(e :: error) = SyntaxError"
  by (cases e)

lemma crashes_same [simp]: "\<not> crashes False (props cs) pg cs"
  by (simp add: crashes_def)

lemma crashes_factory [simp]: "factory pg \<Longrightarrow> \<not> crashes first p pg cs"
  by (simp add: crashes_def throws_def)

lemma loadScriptEffect_eq:
  "loadScriptEffect c p (pg, cs) =
     (if throws (scriptUrl (baseUrl p)) pg then Inl SyntaxError
      else Inr (request c (scriptUrl (baseUrl p)) pg,
                cs\<lparr>setScriptLoadedQueued := pick (factory pg) True (setScriptLoadedQueued cs)\<rparr>))"
  by (simp add: loadScriptEffect_def request_def throws_def pick_def
      split: sum.splits option.splits element.splits error.splits)

lemma request_factory [simp]: "factory (request c url pg) = factory pg"
  by (simp add: request_def split: sum.splits option.splits element.splits)

lemma factory_pick_request [simp]: "factory (pick b (request c url pg) pg) = factory pg"
  by (simp add: pick_def)

lemma unmount_eq:
  "unmount cs =
     cs\<lparr>calls := calls cs @ given (cleanup cs) (map Destroy (optList (dashboardRef cs))),
        dashboardRef := pick (cleanup cs) None (dashboardRef cs),
        mounted := False, containerRef := False, cleanup := False\<rparr>"
  by (simp add: unmount_def whenever_def cleanupDashboard_def pick_def given_def optList_def
      split: option.splits)

lemma whenever_varsEffect:
  "whenever b (varsEffect objs p) cs =
      cs\<lparr>varsRef := pick (b \<and> jsonStringify (map_option objs (vars p)) \<noteq> varsJsonRef cs)
                    (vars p) (varsRef cs),
         varsJsonRef := pick b (jsonStringify (map_option objs (vars p))) (varsJsonRef cs),
         calls := calls cs @
           given (b \<and> jsonStringify (map_option objs (vars p)) \<noteq> varsJsonRef cs)
             (map (\<lambda>i. Update i (vars p)) (optList (dashboardRef cs)))\<rparr>"
  by (simp add: whenever_def varsEffect_def Let_def pick_def given_def optList_def split: option.splits)

lemma whenever_onVarsChangedEffect:
  "whenever b (onVarsChangedEffect p) cs =
     cs\<lparr>onVarsChangedRef := pick b (onVarsChanged p) (onVarsChangedRef cs)\<rparr>"
  by (simp add: whenever_def onVarsChangedEffect_def pick_def)

lemma whenever_initDashboardEffect:
  "whenever b (initDashboardEffect p sl pg) cs =
      cs\<lparr>dashboardRef :=
           pick (b \<and> sl \<and> factory pg \<and> containerRef cs \<and> dashboardRef cs = None)
             (Some (instances cs)) (dashboardRef cs),
         instances :=
           pick (b \<and> sl \<and> factory pg \<and> containerRef cs \<and> dashboardRef cs = None)
             (Suc (instances cs)) (instances cs),
         calls := calls cs @
           given (b \<and> sl \<and> factory pg \<and> containerRef cs \<and> dashboardRef cs = None)
             [Dashboard (instances cs) (baseUrl p) (id_prop p) (varsRef cs)],
         cleanup :=
           pick b (sl \<and> factory pg \<and> containerRef cs \<and> dashboardRef cs = None) (cleanup cs)\<rparr>"
  by (simp add: whenever_def initDashboardEffect_def pick_def given_def)

lemmas whenever_effects = whenever_cleanupDashboard whenever_refreshJwtEffect whenever_onLoadErrorEffect
  whenever_jwtEffect whenever_varsEffect whenever_onVarsChangedEffect
  whenever_initDashboardEffect

lemma pick_simps:
  "pick True x y = x" "pick False x y = y" "pick b x x = x"
  by (simp_all add: pick_def)

lemma given_simps:
  "given True xs = xs" "given False xs = []" "given b [] = []"
  by (simp_all add: given_def)

lemma commit_fields:
  "props (snd (commit objs first c p sl (pg, cs))) = p"
  "scriptLoaded (snd (commit objs first c p sl (pg, cs))) = sl"
  "setScriptLoadedQueued (snd (commit objs first c p sl (pg, cs))) =
     pick ((first \<or> baseUrl (props cs) \<noteq> baseUrl p) \<and> factory pg) True (setScriptLoadedQueued cs)"
  "mounted (snd (commit objs first c p sl (pg, cs))) =
     pick (crashes first p pg cs) False (mounted cs)"
  "containerRef (snd (commit objs first c p sl (pg, cs))) =
     pick (crashes first p pg cs) False (containerRef cs)"
  "promises (snd (commit objs first c p sl (pg, cs))) = promises cs"
  "resolveJwtRef (snd (commit objs first c p sl (pg, cs))) =
     pick (supplies first p cs) [] (resolveJwtRef cs)"
  "refreshRef (snd (commit objs first c p sl (pg, cs))) =
     pick (first \<or> refreshJwt (props cs) \<noteq> refreshJwt p) (Some (refreshJwt p)) (refreshRef cs)"
  "varsRef (snd (commit objs first c p sl (pg, cs))) =
     pick (observes objs first p cs \<and> \<not> crashes first p pg cs) (vars p) (varsRef cs)"
  "varsJsonRef (snd (commit objs first c p sl (pg, cs))) =
     pick ((first \<or> vars (props cs) \<noteq> vars p) \<and> \<not> crashes first p pg cs)
       (jsonStringify (map_option objs (vars p))) (varsJsonRef cs)"
  "onVarsChangedRef (snd (commit objs first c p sl (pg, cs))) =
     pick ((first \<or> onVarsChanged (props cs) \<noteq> onVarsChanged p) \<and> \<not> crashes first p pg cs)
       (onVarsChanged p) (onVarsChangedRef cs)"
  "onLoadErrorRef (snd (commit objs first c p sl (pg, cs))) =
     pick (first \<or> onLoadError (props cs) \<noteq> onLoadError p \<or> onLoadError p = None)
       (onLoadError p) (onLoadErrorRef cs)"
  unfolding commit_def Let_def supplies_def observes_def crashes_def
  by (simp_all add: whenever_effects loadScriptEffect_eq unmount_eq throws_def pick_def)

lemma commit_crash:
  assumes "crashes first p pg cs"
  shows "commit objs first c p sl (pg, cs) =
     (pg, unmount
        ((whenever (first \<or> jwt (props cs) \<noteq> jwt p) (jwtEffect p)
           (whenever (first \<or> onLoadError (props cs) \<noteq> onLoadError p \<or> onLoadError p = None)
              (onLoadErrorEffect p)
              (whenever (first \<or> refreshJwt (props cs) \<noteq> refreshJwt p) (refreshJwtEffect p)
                 (whenever (initDeps first p sl cs \<and> cleanup cs) cleanupDashboard cs))))
         \<lparr>props := p, scriptLoaded := sl\<rparr>))"
proof -
  from assms have "first \<or> baseUrl (props cs) \<noteq> baseUrl p"
    and "throws (scriptUrl (baseUrl p)) pg"
    by (simp_all add: crashes_def)
  then show ?thesis
    unfolding commit_def Let_def
    by (simp only: loadScriptEffect_eq if_True prod.case sum.case)
qed

lemma commit_normal:
  assumes "\<not> crashes first p pg cs"
  shows "commit objs first c p sl (pg, cs) =
     (pick (first \<or> baseUrl (props cs) \<noteq> baseUrl p) (request c (scriptUrl (baseUrl p)) pg) pg,
      (whenever (initDeps first p sl cs)
         (initDashboardEffect p sl
            (pick (first \<or> baseUrl (props cs) \<noteq> baseUrl p)
               (request c (scriptUrl (baseUrl p)) pg) pg))
         (whenever (first \<or> onVarsChanged (props cs) \<noteq> onVarsChanged p) (onVarsChangedEffect p)
            (whenever (first \<or> vars (props cs) \<noteq> vars p) (varsEffect objs p)
               ((whenever (first \<or> jwt (props cs) \<noteq> jwt p) (jwtEffect p)
                  (whenever (first \<or> onLoadError (props cs) \<noteq> onLoadError p
                       \<or> onLoadError p = None)
                     (onLoadErrorEffect p)
                     (whenever (first \<or> refreshJwt (props cs) \<noteq> refreshJwt p)
                        (refreshJwtEffect p)
                        (whenever (initDeps first p sl cs \<and> cleanup cs) cleanupDashboard cs))))
                \<lparr>setScriptLoadedQueued :=
                   pick ((first \<or> baseUrl (props cs) \<noteq> baseUrl p) \<and> factory pg) True
                     (setScriptLoadedQueued cs)\<rparr>))))
      \<lparr>props := p, scriptLoaded := sl\<rparr>)"
proof (cases "first \<or> baseUrl (props cs) \<noteq> baseUrl p")
  case True
  with assms have "\<not> throws (scriptUrl (baseUrl p)) pg"
    by (simp add: crashes_def)
  with True show ?thesis
    unfolding commit_def Let_def
    by (simp add: loadScriptEffect_eq pick_def whenever_effects)
next
  case False
  then show ?thesis
    unfolding commit_def Let_def
    by (simp add: pick_def whenever_effects)
qed

lemma crashes_initDeps: "crashes first p pg cs \<Longrightarrow> initDeps first p sl cs"
  by (auto simp add: crashes_def initDeps_def)

lemma crashes_makes: "crashes first p pg cs \<Longrightarrow> \<not> makes first p sl pg cs"
  by (auto simp add: crashes_def throws_def makes_def)

lemma commit_lifecycle:
  "dashboardRef (snd (commit objs first c p sl (pg, cs))) =
     pick (makes first p sl pg cs) (Some (instances cs))
       (pick (undoes first p sl cs) None (dashboardRef cs))"
  "cleanup (snd (commit objs first c p sl (pg, cs))) =
     pick (initDeps first p sl cs) (makes first p sl pg cs) (cleanup cs)"
  "instances (snd (commit objs first c p sl (pg, cs))) =
     pick (makes first p sl pg cs) (Suc (instances cs)) (instances cs)"
  "calls (snd (commit objs first c p sl (pg, cs))) =
     calls cs
     @ given (undoes first p sl cs) (map Destroy (optList (dashboardRef cs)))
     @ given (supplies first p cs) (map (\<lambda>r. Resolve r (the (jwt p))) (resolveJwtRef cs))
     @ given (observes objs first p cs \<and> \<not> crashes first p pg cs)
         (map (\<lambda>i. Update i (vars p)) (optList (pick (undoes first p sl cs) None (dashboardRef cs))))
     @ given (makes first p sl pg cs)
         [Dashboard (instances cs) (baseUrl p) (id_prop p)
            (pick (observes objs first p cs) (vars p) (varsRef cs))]"
proof -
  show "dashboardRef (snd (commit objs first c p sl (pg, cs))) =
     pick (makes first p sl pg cs) (Some (instances cs))
       (pick (undoes first p sl cs) None (dashboardRef cs))"
  proof (cases "crashes first p pg cs")
    case True
    then show ?thesis
      by (simp add: commit_crash crashes_makes crashes_initDeps undoes_def whenever_effects
          unmount_eq pick_def)
  next
    case False
    then show ?thesis
      unfolding supplies_def observes_def makes_def undoes_def
      by (simp add: commit_normal whenever_effects pick_def [of "initDeps first p sl cs"])
  qed
  show "cleanup (snd (commit objs first c p sl (pg, cs))) =
     pick (initDeps first p sl cs) (makes first p sl pg cs) (cleanup cs)"
  proof (cases "crashes first p pg cs")
    case True
    then show ?thesis
      by (simp add: commit_crash crashes_makes crashes_initDeps undoes_def whenever_effects
          unmount_eq pick_def)
  next
    case False
    then show ?thesis
      unfolding supplies_def observes_def makes_def undoes_def
      by (simp add: commit_normal whenever_effects pick_def [of "initDeps first p sl cs"])
  qed
  show "instances (snd (commit objs first c p sl (pg, cs))) =
     pick (makes first p sl pg cs) (Suc (instances cs)) (instances cs)"
  proof (cases "crashes first p pg cs")
    case True
    then show ?thesis
      by (simp add: commit_crash crashes_makes crashes_initDeps undoes_def whenever_effects
          unmount_eq pick_def)
  next
    case False
    then show ?thesis
      unfolding supplies_def observes_def makes_def undoes_def
      by (simp add: commit_normal whenever_effects pick_def [of "initDeps first p sl cs"])
  qed
  show "calls (snd (commit objs first c p sl (pg, cs))) =
     calls cs
     @ given (undoes first p sl cs) (map Destroy (optList (dashboardRef cs)))
     @ given (supplies first p cs) (map (\<lambda>r. Resolve r (the (jwt p))) (resolveJwtRef cs))
     @ given (observes objs first p cs \<and> \<not> crashes first p pg cs)
         (map (\<lambda>i. Update i (vars p)) (optList (pick (undoes first p sl cs) None (dashboardRef cs))))
     @ given (makes first p sl pg cs)
         [Dashboard (instances cs) (baseUrl p) (id_prop p)
            (pick (observes objs first p cs) (vars p) (varsRef cs))]"
  proof (cases "crashes first p pg cs")
    case True
    then show ?thesis
      by (simp add: commit_crash crashes_makes crashes_initDeps undoes_def supplies_def
          whenever_effects unmount_eq pick_def given_def optList_def)
  next
    case False
    then show ?thesis
      unfolding supplies_def observes_def makes_def undoes_def
      by (simp add: commit_normal whenever_effects pick_def [of "initDeps first p sl cs"])
  qed
qed

lemma flushState_page: "fst (flushState objs c pc) = fst pc"
  unfolding flushState_def commit_def Let_def
  by (cases pc) (simp add: whenever_def)

lemma flushState_pair_fields:
  "props (snd (flushState objs c (pg, cs))) = props cs"
  "scriptLoaded (snd (flushState objs c (pg, cs))) = (scriptLoaded cs \<or> rerenders cs)"
  "setScriptLoadedQueued (snd (flushState objs c (pg, cs))) = False"
  "mounted (snd (flushState objs c (pg, cs))) = mounted cs"
  "containerRef (snd (flushState objs c (pg, cs))) = containerRef cs"
  "promises (snd (flushState objs c (pg, cs))) = promises cs"
  "resolveJwtRef (snd (flushState objs c (pg, cs))) = resolveJwtRef cs"
  "refreshRef (snd (flushState objs c (pg, cs))) = refreshRef cs"
  "varsRef (snd (flushState objs c (pg, cs))) = varsRef cs"
  "varsJsonRef (snd (flushState objs c (pg, cs))) = varsJsonRef cs"
  "onVarsChangedRef (snd (flushState objs c (pg, cs))) = onVarsChangedRef cs"
  by (auto simp add: flushState_def rerenders_def commit_fields pick_simps supplies_def observes_def)

lemma flushState_pair_onLoadErrorRef:
  "onLoadErrorRef (snd (flushState objs c (pg, cs))) =
     pick (rerenders cs \<and> onLoadError (props cs) = None) None (onLoadErrorRef cs)"
  by (auto simp add: flushState_def rerenders_def commit_fields pick_def)

lemma flushState_pair_lifecycle:
  "dashboardRef (snd (flushState objs c (pg, cs))) =
     pick (rerenders cs \<and> makes False (props cs) True pg cs) (Some (instances cs))
       (pick (rerenders cs \<and> cleanup cs) None (dashboardRef cs))"
  "cleanup (snd (flushState objs c (pg, cs))) =
     pick (rerenders cs) (makes False (props cs) True pg cs) (cleanup cs)"
  "instances (snd (flushState objs c (pg, cs))) =
     pick (rerenders cs \<and> makes False (props cs) True pg cs) (Suc (instances cs)) (instances cs)"
  "calls (snd (flushState objs c (pg, cs))) =
     calls cs
     @ given (rerenders cs \<and> cleanup cs) (map Destroy (optList (dashboardRef cs)))
     @ given (rerenders cs \<and> makes False (props cs) True pg cs)
         [Dashboard (instances cs) (baseUrl (props cs)) (id_prop (props cs)) (varsRef cs)]"
  by (auto simp add: flushState_def rerenders_def commit_lifecycle pick_simps given_simps
      supplies_def observes_def undoes_def initDeps_def)

lemmas flushState_fields =
  flushState_pair_fields [of _ _ "fst pc" "snd pc", unfolded prod.collapse]
  flushState_pair_onLoadErrorRef [of _ _ "fst pc" "snd pc", unfolded prod.collapse]
  for pc

lemmas flushState_lifecycle =
  flushState_pair_lifecycle [of _ _ "fst pc" "snd pc", unfolded prod.collapse] for pc

lemma resolutions_simps [simp]:
  "resolutions [] = []"
  "resolutions (x # xs) = resolution x @ resolutions xs"
  "resolutions (xs @ ys) = resolutions xs @ resolutions ys"
  by (simp_all add: resolutions_def)

lemma refreshes_simps [simp]:
  "refreshes [] = []"
  "refreshes (x # xs) = refreshed x @ refreshes xs"
  "refreshes (xs @ ys) = refreshes xs @ refreshes ys"
  by (simp_all add: refreshes_def)

lemma resolutions_map [simp]:
  "resolutions (map (\<lambda>r. Resolve r j) q) = map (\<lambda>r. (r, j)) q"
  "resolutions (map Destroy ds) = []"
  "resolutions (map (\<lambda>i. Update i v) ds) = []"
  by (induction q, simp_all) (induction ds, simp_all)+

lemma refreshes_map [simp]:
  "refreshes (map (\<lambda>r. Resolve r j) q) = []"
  "refreshes (map Destroy ds) = []"
  "refreshes (map (\<lambda>i. Update i v) ds) = []"
  by (induction q, simp_all) (induction ds, simp_all)+

lemma given_proj [simp]:
  "resolutions (given b xs) = given b (resolutions xs)"
  "refreshes (given b xs) = given b (refreshes xs)"
  by (simp_all add: given_def)

lemma render_queue:
  "resolveJwtRef (snd (render objs c p (pg, cs))) = pick (supplies False p cs) [] (resolveJwtRef cs)"
  by (simp add: render_def flushState_fields commit_fields)

lemma render_resolutions:
  "resolutions (calls (snd (render objs c p (pg, cs)))) =
     resolutions (calls cs)
       @ given (supplies False p cs) (map (\<lambda>r. (r, the (jwt p))) (resolveJwtRef cs))"
  by (simp add: render_def flushState_lifecycle commit_lifecycle given_simps)

lemma render_refreshes:
  "refreshes (calls (snd (render objs c p (pg, cs)))) = refreshes (calls cs)"
  by (simp add: render_def flushState_lifecycle commit_lifecycle given_simps)

lemma render_refreshRef:
  "refreshRef (snd (render objs c p (pg, cs))) =
     pick (refreshJwt (props cs) \<noteq> refreshJwt p) (Some (refreshJwt p)) (refreshRef cs)"
  by (simp add: render_def flushState_fields commit_fields)

lemma getJwt_fields:
  "fst (getJwt cs) = promises cs"
  "props (snd (getJwt cs)) = props cs"
  "promises (snd (getJwt cs)) = Suc (promises cs)"
  "refreshRef (snd (getJwt cs)) = refreshRef cs"
  "resolveJwtRef (snd (getJwt cs)) = resolveJwtRef cs @ [promises cs]"
  "calls (snd (getJwt cs)) = calls cs @ [Refresh (refreshRef cs)]"
  by (simp_all add: getJwt_def)

lemma requests_Suc:
  "requests (Suc n) cs =
     (promises cs # fst (requests n (snd (getJwt cs))), snd (requests n (snd (getJwt cs))))"
  by (simp add: case_prod_beta getJwt_fields)

lemma requests_ids: "fst (requests n cs) = [promises cs ..< promises cs + n]"
  by (induction n arbitrary: cs) (simp_all add: requests_Suc getJwt_fields upt_conv_Cons del: requests.simps(2))

lemma requests_props: "props (snd (requests n cs)) = props cs"
  by (induction n arbitrary: cs) (simp_all add: requests_Suc getJwt_fields del: requests.simps(2))

lemma requests_refreshRef: "refreshRef (snd (requests n cs)) = refreshRef cs"
  by (induction n arbitrary: cs) (simp_all add: requests_Suc getJwt_fields del: requests.simps(2))

lemma requests_queue:
  "resolveJwtRef (snd (requests n cs)) = resolveJwtRef cs @ [promises cs ..< promises cs + n]"
  by (induction n arbitrary: cs) (simp_all add: requests_Suc getJwt_fields upt_conv_Cons del: requests.simps(2))

lemma requests_resolutions: "resolutions (calls (snd (requests n cs))) = resolutions (calls cs)"
  by (induction n arbitrary: cs) (simp_all add: requests_Suc getJwt_fields del: requests.simps(2))

lemma requests_refreshes:
  "refreshes (calls (snd (requests n cs))) = refreshes (calls cs) @ replicate n (refreshRef cs)"
  by (induction n arbitrary: cs)
     (simp_all add: requests_Suc getJwt_fields replicate_append_same del: requests.simps(2))

subsection \<open>The token rendezvous\<close>

text \<open>
  Claim C9. A falsy \<^verbatim>\<open>jwt\<close> (\<^verbatim>\<open>undefined\<close> or the empty string) resolves no pending
  \<^verbatim>\<open>getJwt\<close> waiter and does not clear the queue: the effect leaves the component as it
  is, and a render with such a \<^verbatim>\<open>jwt\<close> leaves every waiter pending, whatever else
  changes in the props.
\<close>

theorem falsy_jwt_resolves_nothing:
  assumes "jwt p = None \<or> jwt p = Some []"
  shows "jwtEffect p cs = cs
    \<and> resolveJwtRef (snd (render objs c p (pg, cs))) = resolveJwtRef cs
    \<and> resolutions (calls (snd (render objs c p (pg, cs)))) = resolutions (calls cs)"
proof -
  from assms have f: "\<not> supplies False p cs" by (auto simp: supplies_def truthy_def)
  from assms have "jwtEffect p cs = cs" by (auto simp: jwtEffect_def)
  with f show ?thesis
    by (simp add: render_queue render_resolutions pick_simps given_simps)
qed

theorem falsy_jwt_resolves_nothing_witness:
  "resolveJwtRef (snd (render exampleStore 0 (exampleProps\<lparr>jwt := Some []\<rparr>)
      (examplePage, snd (requests 2 exampleLive)))) = [0, 1]
   \<and> resolutions (calls (snd (render exampleStore 0 (exampleProps\<lparr>jwt := Some []\<rparr>)
      (examplePage, snd (requests 2 exampleLive))))) = []"
proof -
  have h: "jwt (exampleProps\<lparr>jwt := Some []\<rparr>) = None \<or> jwt (exampleProps\<lparr>jwt := Some []\<rparr>) = Some []"
    by simp
  have q: "resolveJwtRef (snd (requests 2 exampleLive)) = [0, 1]" by code_simp
  have r: "resolutions (calls (snd (requests 2 exampleLive))) = []" by code_simp
  from falsy_jwt_resolves_nothing [OF h, of "snd (requests 2 exampleLive)" exampleStore 0 examplePage] q r
  show ?thesis by simp
qed

text \<open>
  Claim C4. A token value supplied while no waiter is pending is not kept: the effect leaves
  the component as it is, and nothing is resolved. A \<^verbatim>\<open>getJwt\<close> call made afterwards
  calls the refresh action and resolves nothing; its promise is the one waiter. It stays
  pending through a render that passes the same \<^verbatim>\<open>jwt\<close> again, and a render with a new,
  non-empty \<^verbatim>\<open>jwt\<close> resolves it to that new value.
\<close>

theorem supply_without_waiters_is_not_cached:
  assumes "resolveJwtRef cs = []" and "jwt p = Some v"
  shows "jwtEffect p cs = cs
    \<and> resolutions (calls (snd (render objs c p (pg, cs)))) = resolutions (calls cs)
    \<and> (let cs1 = snd (render objs c p (pg, cs)); r = fst (getJwt cs1); cs2 = snd (getJwt cs1) in
         calls cs2 = calls cs1 @ [Refresh (refreshRef cs1)]
       \<and> resolveJwtRef cs2 = [r]
       \<and> (jwt p' = Some v \<longrightarrow>
            resolveJwtRef (snd (render objs c p' (pg', cs2))) = [r]
          \<and> resolutions (calls (snd (render objs c p' (pg', cs2)))) = resolutions (calls cs))
       \<and> (jwt p' = Some v' \<and> v' \<noteq> v \<and> v' \<noteq> [] \<longrightarrow>
            resolveJwtRef (snd (render objs c p' (pg', cs2))) = []
          \<and> resolutions (calls (snd (render objs c p' (pg', cs2))))
              = resolutions (calls cs) @ [(r, v')]))"
proof -
  define cs1 where "cs1 = snd (render objs c p (pg, cs))"
  define cs2 where "cs2 = snd (getJwt cs1)"
  have noop: "jwtEffect p cs = cs"
    using assms by (simp add: jwtEffect_def)
  have q1: "resolveJwtRef cs1 = []"
    using assms(1) by (simp add: cs1_def render_queue pick_def)
  have r1: "resolutions (calls cs1) = resolutions (calls cs)"
    using assms(1) by (simp add: cs1_def render_resolutions given_def)
  have p1: "jwt (props cs1) = Some v"
    using assms(2) by (simp add: cs1_def render_def flushState_fields commit_fields)
  have c2: "calls cs2 = calls cs1 @ [Refresh (refreshRef cs1)]"
    and q2: "resolveJwtRef cs2 = [fst (getJwt cs1)]"
    and p2: "jwt (props cs2) = Some v"
    using q1 p1 by (simp_all add: cs2_def getJwt_fields)
  have r2: "resolutions (calls cs2) = resolutions (calls cs)"
    using c2 r1 by simp
  have same: "resolveJwtRef (snd (render objs c p' (pg', cs2))) = [fst (getJwt cs1)]
      \<and> resolutions (calls (snd (render objs c p' (pg', cs2)))) = resolutions (calls cs)"
    if "jwt p' = Some v"
    using that p2 q2 r2
    by (simp add: render_queue render_resolutions supplies_def pick_simps given_simps)
  have new: "resolveJwtRef (snd (render objs c p' (pg', cs2))) = []
      \<and> resolutions (calls (snd (render objs c p' (pg', cs2))))
          = resolutions (calls cs) @ [(fst (getJwt cs1), v')]"
    if "jwt p' = Some v' \<and> v' \<noteq> v \<and> v' \<noteq> []"
    using that p2 q2 r2
    by (auto simp add: render_queue render_resolutions supplies_def truthy_def pick_def given_def)
  show ?thesis
    unfolding Let_def cs1_def [symmetric] cs2_def [symmetric]
    using noop r1 c2 q2 same new by blast
qed

theorem supply_without_waiters_is_not_cached_witness:
  "(let cs1 = snd (render exampleStore 0 (exampleProps\<lparr>jwt := Some ''tok1''\<rparr>) (examplePage, exampleLive));
        cs2 = snd (getJwt cs1) in
      calls cs2 = calls cs1 @ [Refresh (Some 7)]
    \<and> resolveJwtRef cs2 = [0]
    \<and> resolveJwtRef (snd (render exampleStore 0 (exampleProps\<lparr>jwt := Some ''tok1'', vars := Some 3\<rparr>)
          (examplePage, cs2))) = [0]
    \<and> resolutions (calls (snd (render exampleStore 0 (exampleProps\<lparr>jwt := Some ''tok2''\<rparr>)
          (examplePage, cs2)))) = [(0, ''tok2'')])"
proof -
  have h1: "resolveJwtRef exampleLive = []" by code_simp
  have h2: "jwt (exampleProps\<lparr>jwt := Some ''tok1''\<rparr>) = Some ''tok1''" by simp
  have e1: "resolutions (calls exampleLive) = []" by code_simp
  have e2: "fst (getJwt (snd (render exampleStore 0 (exampleProps\<lparr>jwt := Some ''tok1''\<rparr>)
      (examplePage, exampleLive)))) = 0" by code_simp
  have e3: "refreshRef (snd (render exampleStore 0 (exampleProps\<lparr>jwt := Some ''tok1''\<rparr>)
      (examplePage, exampleLive))) = Some 7" by code_simp
  note a = supply_without_waiters_is_not_cached [OF h1 h2, where objs = exampleStore
      and c = 0 and pg = examplePage and pg' = examplePage and v' = "''tok2''"
      and p' = "exampleProps\<lparr>jwt := Some ''tok1'', vars := Some 3\<rparr>"]
  note b = supply_without_waiters_is_not_cached [OF h1 h2, where objs = exampleStore
      and c = 0 and pg = examplePage and pg' = examplePage and v' = "''tok2''"
      and p' = "exampleProps\<lparr>jwt := Some ''tok2''\<rparr>"]
  show ?thesis using a b e1 e2 e3 by (simp add: Let_def)
qed

text \<open>
  Claim C5. Every \<^verbatim>\<open>getJwt\<close> call calls the current refresh action exactly once, whatever
  the queue holds: \<open>n\<close> calls in a row make \<open>n\<close> refresh calls. The effect that stores a
  new \<^verbatim>\<open>refreshJwt\<close> touches neither the queue nor the calls; after a render with a new
  \<^verbatim>\<open>refreshJwt\<close> the next \<^verbatim>\<open>getJwt\<close> calls the new action, and a render that does not
  change \<^verbatim>\<open>jwt\<close> leaves the pending waiters as they are.
\<close>

theorem every_getJwt_invokes_refresh_once:
  "calls (snd (getJwt cs)) = calls cs @ [Refresh (refreshRef cs)]
   \<and> refreshes (calls (snd (requests n cs))) = refreshes (calls cs) @ replicate n (refreshRef cs)
   \<and> resolveJwtRef (refreshJwtEffect p cs) = resolveJwtRef cs
   \<and> calls (refreshJwtEffect p cs) = calls cs
   \<and> (refreshJwt p \<noteq> refreshJwt (props cs) \<longrightarrow>
        refreshes (calls (snd (getJwt (snd (render objs c p (pg, cs))))))
          = refreshes (calls cs) @ [Some (refreshJwt p)])
   \<and> (jwt p = jwt (props cs) \<longrightarrow>
        resolveJwtRef (snd (render objs c p (pg, cs))) = resolveJwtRef cs
      \<and> resolutions (calls (snd (render objs c p (pg, cs)))) = resolutions (calls cs))"
  by (auto simp add: getJwt_fields requests_refreshes refreshJwtEffect_def render_refreshes
      render_refreshRef render_queue render_resolutions supplies_def pick_def given_def)

theorem every_getJwt_invokes_refresh_once_witness:
  "refreshes (calls (snd (requests 3 exampleLive))) = [Some 7, Some 7, Some 7]
   \<and> refreshes (calls (snd (getJwt (snd (render exampleStore 0 (exampleProps\<lparr>refreshJwt := 8\<rparr>)
        (examplePage, snd (requests 3 exampleLive))))))) = [Some 7, Some 7, Some 7, Some 8]
   \<and> resolveJwtRef (snd (render exampleStore 0 (exampleProps\<lparr>refreshJwt := 8\<rparr>)
        (examplePage, snd (requests 3 exampleLive)))) = [0, 1, 2]"
proof -
  let ?cs = "snd (requests 3 exampleLive)"
  have h1: "refreshJwt (exampleProps\<lparr>refreshJwt := 8\<rparr>) \<noteq> refreshJwt (props ?cs)" by code_simp
  have h2: "jwt (exampleProps\<lparr>refreshJwt := 8\<rparr>) = jwt (props ?cs)" by code_simp
  have e3: "resolveJwtRef ?cs = [0, 1, 2]" by code_simp
  have e4: "refreshes (calls ?cs) = [Some 7, Some 7, Some 7]" by code_simp
  note a = every_getJwt_invokes_refresh_once [where cs = ?cs and n = 0
      and p = "exampleProps\<lparr>refreshJwt := 8\<rparr>" and objs = exampleStore and c = 0
      and pg = examplePage]
  show ?thesis using a h1 h2 e3 e4 by simp
qed

text \<open>
  Claim C1, amended. After \<open>n\<close> \<^verbatim>\<open>getJwt\<close> calls made while \<^verbatim>\<open>jwt\<close> is undefined, a
  render with a non-empty \<^verbatim>\<open>jwt = v\<close> resolves every pending promise to \<open>v\<close>, in the order
  in which the requests were queued, and leaves the queue empty. The \<open>n\<close> promises are
  distinct and are queued in the order of the calls.
\<close>

theorem pending_requests_resolve_in_order:
  assumes "jwt (props cs) = None" and "jwt p = Some v" and "v \<noteq> []"
  shows "(let rs = fst (requests n cs); cs1 = snd (requests n cs);
              cs2 = snd (render objs c p (pg, cs1)) in
      rs = [promises cs ..< promises cs + n]
    \<and> resolveJwtRef cs1 = resolveJwtRef cs @ rs
    \<and> resolutions (calls cs1) = resolutions (calls cs)
    \<and> resolutions (calls cs2) = resolutions (calls cs) @ map (\<lambda>r. (r, v)) (resolveJwtRef cs @ rs)
    \<and> resolveJwtRef cs2 = [])"
proof -
  have "supplies False p (snd (requests n cs))"
    using assms by (simp add: supplies_def truthy_def requests_props)
  then show ?thesis
    using assms(2)
    by (simp add: Let_def requests_ids requests_queue requests_resolutions render_queue
        render_resolutions pick_simps given_simps)
qed

theorem pending_requests_resolve_in_order_witness:
  "resolveJwtRef (snd (requests 3 exampleLive)) = [0, 1, 2]
   \<and> resolutions (calls (snd (render exampleStore 0 (exampleProps\<lparr>jwt := Some ''tok1''\<rparr>)
        (examplePage, snd (requests 3 exampleLive)))))
       = [(0, ''tok1''), (1, ''tok1''), (2, ''tok1'')]
   \<and> resolveJwtRef (snd (render exampleStore 0 (exampleProps\<lparr>jwt := Some ''tok1''\<rparr>)
        (examplePage, snd (requests 3 exampleLive)))) = []"
proof -
  have h1: "jwt (props exampleLive) = None" by code_simp
  have h2: "jwt (exampleProps\<lparr>jwt := Some ''tok1''\<rparr>) = Some ''tok1''" by simp
  have h3: "''tok1'' \<noteq> []" by simp
  have e1: "promises exampleLive = 0" by code_simp
  have e2: "resolveJwtRef exampleLive = []" by code_simp
  have e3: "resolutions (calls exampleLive) = []" by code_simp
  have e4: "[0 ..< 3] = [0, 1, Suc (Suc 0)]" by code_simp
  from pending_requests_resolve_in_order [OF h1 h2 h3, of 3 exampleStore 0 examplePage] e1 e2 e3 e4
  show ?thesis by (simp add: Let_def)
qed

text \<open>
  The claim as it is written, for every token value, fails at the empty string: one request,
  then \<^verbatim>\<open>jwt = ""\<close>; the promise is not resolved and the queue is not empty.
\<close>

theorem empty_jwt_leaves_request_pending:
  "jwt (props exampleLive) = None
   \<and> fst (requests 1 exampleLive) = [0]
   \<and> resolutions (calls (snd (render exampleStore 0 (exampleProps\<lparr>jwt := Some []\<rparr>)
        (examplePage, snd (requests 1 exampleLive))))) = []
   \<and> resolveJwtRef (snd (render exampleStore 0 (exampleProps\<lparr>jwt := Some []\<rparr>)
        (examplePage, snd (requests 1 exampleLive)))) = [0]"
  by code_simp

subsection \<open>Variables snapshots\<close>

lemma updates_simps [simp]:
  "updates [] = []"
  "updates (x # xs) = updated x @ updates xs"
  "updates (xs @ ys) = updates xs @ updates ys"
  by (simp_all add: updates_def)

lemma updates_map [simp]:
  "updates (map (\<lambda>r. Resolve r j) q) = []"
  "updates (map Destroy ds) = []"
  "updates (map (\<lambda>i. Update i v) ds) = map (\<lambda>i. (i, v)) ds"
  by (induction q, simp_all) (induction ds, simp_all)+

lemma updates_given [simp]: "updates (given b xs) = given b (updates xs)"
  by (simp add: given_def)

lemma render_updates:
  "updates (calls (snd (render objs c p (pg, cs)))) =
     updates (calls cs)
       @ given (observes objs False p cs \<and> \<not> crashes False p pg cs)
           (map (\<lambda>i. (i, vars p))
              (optList (pick (undoes False p (scriptLoaded cs) cs) None (dashboardRef cs))))"
  by (simp add: render_def flushState_lifecycle commit_lifecycle given_simps)

lemma render_vars:
  "varsRef (snd (render objs c p (pg, cs))) =
     pick (observes objs False p cs \<and> \<not> crashes False p pg cs) (vars p) (varsRef cs)"
  "varsJsonRef (snd (render objs c p (pg, cs))) =
     pick (vars (props cs) \<noteq> vars p \<and> \<not> crashes False p pg cs)
       (jsonStringify (map_option objs (vars p))) (varsJsonRef cs)"
  by (simp_all add: render_def flushState_fields commit_fields)

lemma render_destroys_first:
  assumes "dashboardRef cs = Some i" and "cleanup cs"
    and "id_prop p \<noteq> id_prop (props cs) \<or> baseUrl p \<noteq> baseUrl (props cs)"
  shows "\<exists>rest. calls (snd (render objs c p (pg, cs))) = calls cs @ Destroy i # rest"
proof -
  from assms have "undoes False p (scriptLoaded cs) cs"
    by (auto simp add: undoes_def initDeps_def)
  with assms(1) show ?thesis
    by (simp add: render_def flushState_lifecycle commit_lifecycle given_simps optList_def)
qed

text \<open>
  Claim C2, amended. Take a component with a live instance. Whether a render forwards its
  variables snapshot to the instance is decided in two steps. The effect runs only when the
  \<^verbatim>\<open>vars\<close> prop is another object than at the previous render (the dependency is compared
  by identity): with the same object nothing is compared, stored or forwarded, whatever the
  object holds by now. When the effect runs, it compares the \<^verbatim>\<open>JSON.stringify\<close> text of the
  new snapshot with the stored text, and stores the new text. Two texts are equal exactly
  when the two snapshots have the same properties in the same enumeration order. With equal
  texts there is no \<^verbatim>\<open>update\<close> call; with different texts there is exactly one, which
  carries the new snapshot, provided that the render leaves \<^verbatim>\<open>id\<close> and \<^verbatim>\<open>baseUrl\<close> as
  they are. A render that changes \<^verbatim>\<open>id\<close> or \<^verbatim>\<open>baseUrl\<close> destroys the instance before the
  effect runs, and makes no \<^verbatim>\<open>update\<close> call.
\<close>

theorem vars_forwarded_iff_new_object_with_new_text:
  assumes "dashboardRef cs = Some i" and "cleanup cs"
  shows "(vars p = vars (props cs) \<longrightarrow>
            updates (calls (snd (render objs c p (pg, cs)))) = updates (calls cs)
          \<and> varsRef (snd (render objs c p (pg, cs))) = varsRef cs
          \<and> varsJsonRef (snd (render objs c p (pg, cs))) = varsJsonRef cs)
       \<and> (vars p \<noteq> vars (props cs) \<and> id_prop p = id_prop (props cs)
            \<and> baseUrl p = baseUrl (props cs) \<longrightarrow>
            varsJsonRef (snd (render objs c p (pg, cs))) = jsonStringify (map_option objs (vars p))
          \<and> (jsonStringify (map_option objs (vars p)) = varsJsonRef cs \<longrightarrow>
                updates (calls (snd (render objs c p (pg, cs)))) = updates (calls cs)
              \<and> varsRef (snd (render objs c p (pg, cs))) = varsRef cs)
          \<and> (jsonStringify (map_option objs (vars p)) \<noteq> varsJsonRef cs \<longrightarrow>
                updates (calls (snd (render objs c p (pg, cs))))
                  = updates (calls cs) @ [(i, vars p)]
              \<and> varsRef (snd (render objs c p (pg, cs))) = vars p))
       \<and> (id_prop p \<noteq> id_prop (props cs) \<or> baseUrl p \<noteq> baseUrl (props cs) \<longrightarrow>
            updates (calls (snd (render objs c p (pg, cs)))) = updates (calls cs)
          \<and> (\<exists>rest. calls (snd (render objs c p (pg, cs))) = calls cs @ Destroy i # rest))
       \<and> (jsonStringify (map_option objs (vars p)) = jsonStringify (map_option objs prev)
            \<longleftrightarrow> map_option objs (vars p) = map_option objs prev)"
proof -
  have same: "updates (calls (snd (render objs c p (pg, cs)))) = updates (calls cs)
      \<and> varsRef (snd (render objs c p (pg, cs))) = varsRef cs
      \<and> varsJsonRef (snd (render objs c p (pg, cs))) = varsJsonRef cs"
    if "vars p = vars (props cs)"
    using that by (simp add: render_updates render_vars observes_def given_simps pick_simps)
  have new: "varsJsonRef (snd (render objs c p (pg, cs))) = jsonStringify (map_option objs (vars p))
      \<and> (jsonStringify (map_option objs (vars p)) = varsJsonRef cs \<longrightarrow>
            updates (calls (snd (render objs c p (pg, cs)))) = updates (calls cs)
          \<and> varsRef (snd (render objs c p (pg, cs))) = varsRef cs)
      \<and> (jsonStringify (map_option objs (vars p)) \<noteq> varsJsonRef cs \<longrightarrow>
            updates (calls (snd (render objs c p (pg, cs))))
              = updates (calls cs) @ [(i, vars p)]
          \<and> varsRef (snd (render objs c p (pg, cs))) = vars p)"
    if "vars p \<noteq> vars (props cs) \<and> id_prop p = id_prop (props cs)
        \<and> baseUrl p = baseUrl (props cs)"
  proof -
    from that have "\<not> crashes False p pg cs" and "\<not> undoes False p (scriptLoaded cs) cs"
      and "vars (props cs) \<noteq> vars p"
      by (auto simp add: crashes_def undoes_def initDeps_def)
    with assms(1) show ?thesis
      by (simp add: render_updates render_vars observes_def given_def pick_def optList_def)
  qed
  have changed: "updates (calls (snd (render objs c p (pg, cs)))) = updates (calls cs)
      \<and> (\<exists>rest. calls (snd (render objs c p (pg, cs))) = calls cs @ Destroy i # rest)"
    if "id_prop p \<noteq> id_prop (props cs) \<or> baseUrl p \<noteq> baseUrl (props cs)"
  proof -
    from that assms(2) have "undoes False p (scriptLoaded cs) cs"
      by (auto simp add: undoes_def initDeps_def)
    then have "updates (calls (snd (render objs c p (pg, cs)))) = updates (calls cs)"
      by (simp add: render_updates pick_simps optList_def given_simps)
    with render_destroys_first [OF assms that] show ?thesis
      by simp
  qed
  from same new changed show ?thesis
    by (simp only: jsonStringify_inj) blast
qed

theorem vars_forwarded_iff_new_object_with_new_text_witness:
  "updates (calls (snd (render exampleStore 0 (exampleProps\<lparr>jwt := Some ''tok1''\<rparr>)
       (examplePage, exampleLive)))) = []
   \<and> updates (calls (snd (render exampleStore 0 (exampleProps\<lparr>vars := Some 3\<rparr>)
       (examplePage, exampleLive)))) = []
   \<and> updates (calls (snd (render exampleStore 0 (exampleProps\<lparr>vars := Some 4\<rparr>)
       (examplePage, exampleLive)))) = [(0, Some 4)]
   \<and> varsRef (snd (render exampleStore 0 (exampleProps\<lparr>vars := Some 4\<rparr>)
       (examplePage, exampleLive))) = Some 4
   \<and> updates (calls (snd (render exampleStore 0 (exampleProps\<lparr>vars := Some 4, id_prop := ''d2''\<rparr>)
       (examplePage, exampleLive)))) = []"
proof -
  have h1: "dashboardRef exampleLive = Some 0" by code_simp
  have h2: "cleanup exampleLive" by code_simp
  have p: "vars (props exampleLive) = Some 1" "id_prop (props exampleLive) = ''d1''"
    "baseUrl (props exampleLive) = ''http://h''" by code_simp+
  have j: "varsJsonRef exampleLive = jsonStringify (map_option exampleStore (Some 1))"
    by code_simp
  have e1: "map_option exampleStore (Some 3) = map_option exampleStore (Some 1)" by code_simp
  have e2: "map_option exampleStore (Some 4) \<noteq> map_option exampleStore (Some 1)" by code_simp
  have e3: "updates (calls exampleLive) = []" by code_simp
  note t = vars_forwarded_iff_new_object_with_new_text [OF h1 h2, where objs = exampleStore
      and c = 0 and pg = examplePage]
  from t [where p = "exampleProps\<lparr>jwt := Some ''tok1''\<rparr>"]
    t [where p = "exampleProps\<lparr>vars := Some 3\<rparr>" and prev = "Some 1"]
    t [where p = "exampleProps\<lparr>vars := Some 4\<rparr>" and prev = "Some 1"]
    t [where p = "exampleProps\<lparr>vars := Some 4, id_prop := ''d2''\<rparr>"]
    p j e1 e2 e3
  show ?thesis
    by (simp add: exampleProps_def)
qed

text \<open>
  The claim as it is written fails for two snapshots that differ in the order of their keys
  only: \<^verbatim>\<open>{a: "1", b: "2"}\<close> is stored and \<^verbatim>\<open>{b: "2", a: "1"}\<close> arrives; the instance
  gets a second \<^verbatim>\<open>update\<close>.
\<close>

theorem reordered_keys_trigger_update:
  "set (exampleStore 2) = set (exampleStore 1)
   \<and> map fst (exampleStore 2) = [''b'', ''a'']
   \<and> map fst (exampleStore 1) = [''a'', ''b'']
   \<and> varsRef exampleLive = Some 1
   \<and> dashboardRef exampleLive = Some 0
   \<and> calls (snd (render exampleStore 0 (exampleProps\<lparr>vars := Some 2\<rparr>)
        (examplePage, exampleLive))) = calls exampleLive @ [Update 0 (Some 2)]"
  by code_simp

subsection \<open>Steps of the page, component by component\<close>





lemma onload_page: "fst (onload objs c (pg, cs)) = pg"
  by (simp add: onload_def flushState_page)

lemma put_simps [simp]:
  "page (put c pc s) = fst pc"
  "comps (put c pc s) d = (if d = c then Some (snd pc) else comps s d)"
  by (simp_all add: put_def)

lemma notifyLoad_simps:
  "page (notifyLoad objs l s) = page s"
  "comps (notifyLoad objs l s) c =
     (if c = fst l then map_option (\<lambda>cs. snd (onload objs c (page s, cs))) (comps s c)
      else comps s c)"
  by (auto simp add: notifyLoad_def onload_page split: option.splits)

lemma notifyError_simps:
  "page (notifyError l s) = page s"
  "comps (notifyError l s) c =
     (if c = fst l then map_option (onerror (snd l)) (comps s c) else comps s c)"
  by (auto simp add: notifyError_def split: option.splits)

lemma fold_notify:
  assumes pg: "\<And>l s. page (g l s) = page s"
    and cm: "\<And>l s c. comps (g l s) c =
               (if c = fst l then map_option (f (page s) c (snd l)) (comps s c) else comps s c)"
  shows "page (fold g ls s) = page s
    \<and> comps (fold g ls s) c = map_option (fold (f (page s) c) (heard c ls)) (comps s c)"
proof (induction ls arbitrary: s)
  case Nil
  show ?case by (simp add: heard_def option.map_ident)
next
  case (Cons l ls)
  show ?case
    by (cases "comps s c") (auto simp add: Cons.IH pg cm heard_def)
qed

lemma fold_const: "fold (\<lambda>u. f) us = f ^^ length us"
  by (induction us) (simp_all add: funpow_swap1 fun_eq_iff)

lemma fold_notifyLoad:
  "page (fold (notifyLoad objs) ls s) = page s"
  "comps (fold (notifyLoad objs) ls s) c =
     map_option ((\<lambda>cs. snd (onload objs c (page s, cs))) ^^ length (heard c ls)) (comps s c)"
  using fold_notify [of "notifyLoad objs" "\<lambda>pg c u cs. snd (onload objs c (pg, cs))" ls s c]
  by (simp_all add: notifyLoad_simps fold_const)

lemma fold_notifyError:
  "page (fold notifyError ls s) = page s"
  "comps (fold notifyError ls s) c = map_option (fold onerror (heard c ls)) (comps s c)"
  using fold_notify [of notifyError "\<lambda>pg c. onerror" ls s c]
  by (simp_all add: notifyError_simps)


lemma step_comps:
  "comps (step objs (Mount d p) s) c =
     (if c = d \<and> comps s c = None then Some (snd (mount objs c p (page s))) else comps s c)"
  "comps (step objs (Render d p) s) c =
     (if c = d
      then map_option (\<lambda>cs. if mounted cs then snd (render objs c p (page s, cs)) else cs) (comps s c)
      else comps s c)"
  "comps (step objs (Unmount d) s) c =
     (if c = d then map_option (\<lambda>cs. if mounted cs then unmount cs else cs) (comps s c)
      else comps s c)"
  "comps (step objs (GetJwt d) s) c =
     (if c = d then map_option (\<lambda>cs. snd (getJwt cs)) (comps s c) else comps s c)"
  "comps (step objs (InstanceVarsChanged d v) s) c =
     (if c = d then map_option (forwardVarsChanged v) (comps s c) else comps s c)"
  "comps (step objs (ScriptLoaded k df) s) c =
     (if pending k (page s)
      then map_option ((\<lambda>cs. snd (onload objs c (settle k Loaded df (page s), cs)))
                         ^^ length (heard c (listeners (scripts (page s) ! k)))) (comps s c)
      else comps s c)"
  "comps (step objs (ScriptError k) s) c =
     (if pending k (page s)
      then map_option (fold onerror (heard c (listeners (scripts (page s) ! k)))) (comps s c)
      else comps s c)"
  "comps (step objs (Answer a) s) c = comps s c"
  "comps (step objs (OtherLoaded n) s) c =
     (if n < length (others (page s)) \<and> fst (others (page s) ! n) = c
      then map_option (\<lambda>cs. snd (onload objs c (page s, cs))) (comps s c) else comps s c)"
  "comps (step objs (OtherError n) s) c =
     (if n < length (others (page s)) \<and> fst (others (page s) ! n) = c
      then map_option (onerror (snd (others (page s) ! n))) (comps s c) else comps s c)"
  by (auto simp add: fold_notifyLoad fold_notifyError notifyLoad_simps notifyError_simps
      split: option.splits)

lemma constructed_simps [simp]:
  "constructed [] = []"
  "constructed (x # xs) = construction x @ constructed xs"
  "constructed (xs @ ys) = constructed xs @ constructed ys"
  by (simp_all add: constructed_def)

lemma destroyed_simps [simp]:
  "destroyed [] = []"
  "destroyed (x # xs) = destruction x @ destroyed xs"
  "destroyed (xs @ ys) = destroyed xs @ destroyed ys"
  by (simp_all add: destroyed_def)

lemma constructed_map [simp]:
  "constructed (map (\<lambda>r. Resolve r j) q) = []"
  "constructed (map Destroy ds) = []"
  "constructed (map (\<lambda>i. Update i v) ds) = []"
  by (induction q, simp_all) (induction ds, simp_all)+

lemma destroyed_map [simp]:
  "destroyed (map (\<lambda>r. Resolve r j) q) = []"
  "destroyed (map Destroy ds) = ds"
  "destroyed (map (\<lambda>i. Update i v) ds) = []"
  by (induction q, simp_all) (induction ds, simp_all)+

lemma lifecycle_given [simp]:
  "constructed (given b xs) = given b (constructed xs)"
  "destroyed (given b xs) = given b (destroyed xs)"
  by (simp_all add: given_def)

lemma commit_constructed:
  "constructed (calls (snd (commit objs first c p sl (pg, cs)))) =
     constructed (calls cs) @ given (makes first p sl pg cs) [instances cs]"
  by (simp add: commit_lifecycle given_simps)

lemma commit_destroyed:
  "destroyed (calls (snd (commit objs first c p sl (pg, cs)))) =
     destroyed (calls cs) @ given (undoes first p sl cs) (optList (dashboardRef cs))"
  by (simp add: commit_lifecycle given_simps)

lemma wellFormed_initial: "wellFormed (initial p)"
  by (simp add: wellFormed_def initial_def optList_def)

lemma wellFormed_commit:
  assumes "wellFormed cs" and "mounted cs" and "scriptLoaded cs \<longrightarrow> sl"
  shows "wellFormed (snd (commit objs first c p sl (pg, cs)))"
proof (cases "crashes first p pg cs")
  case True
  note crash = crashes_initDeps [OF True, of sl] crashes_makes [OF True, of sl]
  show ?thesis
  proof (cases "dashboardRef cs")
    case None
    with True crash assms show ?thesis
      unfolding wellFormed_def commit_constructed commit_destroyed commit_lifecycle commit_fields
      by (auto simp add: pick_def given_def optList_def undoes_def)
  next
    case (Some i)
    with True crash assms show ?thesis
      unfolding wellFormed_def commit_constructed commit_destroyed commit_lifecycle commit_fields
      by (auto simp add: pick_def given_def optList_def undoes_def)
  qed
next
  case normal: False
  show ?thesis
  proof (cases "undoes first p sl cs")
    case True
    then obtain i where "dashboardRef cs = Some i"
      using assms(1) by (auto simp add: undoes_def wellFormed_def)
    with True normal assms show ?thesis
      unfolding wellFormed_def commit_constructed commit_destroyed commit_lifecycle commit_fields
      by (auto simp add: pick_def given_def optList_def makes_def undoes_def)
  next
    case False
    with normal assms show ?thesis
      unfolding wellFormed_def commit_constructed commit_destroyed commit_lifecycle commit_fields
      by (auto simp add: pick_def given_def optList_def makes_def undoes_def)
  qed
qed

lemma wellFormed_queued [simp]:
  "wellFormed (cs\<lparr>setScriptLoadedQueued := b\<rparr>) = wellFormed cs"
  by (simp add: wellFormed_def)

lemma wellFormed_flushState:
  assumes "wellFormed (snd pc)"
  shows "wellFormed (snd (flushState objs c pc))"
proof (cases pc)
  case (Pair pg cs)
  with assms show ?thesis
    by (auto simp add: flushState_def intro: wellFormed_commit)
qed

lemma wellFormed_mount: "wellFormed (snd (mount objs c p pg))"
  unfolding mount_def
  by (intro wellFormed_flushState wellFormed_commit wellFormed_initial)
     (simp_all add: initial_def)

lemma wellFormed_render:
  "wellFormed cs \<Longrightarrow> mounted cs \<Longrightarrow> wellFormed (snd (render objs c p (pg, cs)))"
  unfolding render_def
  by (simp add: wellFormed_flushState wellFormed_commit)

lemma wellFormed_onload: "wellFormed cs \<Longrightarrow> wellFormed (snd (onload objs c (pg, cs)))"
  unfolding onload_def
  by (simp add: wellFormed_flushState)

lemma wellFormed_unmount: "wellFormed cs \<Longrightarrow> wellFormed (unmount cs)"
  by (auto simp add: wellFormed_def unmount_def whenever_def cleanupDashboard_def optList_def
      split: option.splits)

lemma wellFormed_getJwt: "wellFormed cs \<Longrightarrow> wellFormed (snd (getJwt cs))"
  by (auto simp add: wellFormed_def getJwt_def)

lemma wellFormed_forwardVarsChanged: "wellFormed cs \<Longrightarrow> wellFormed (forwardVarsChanged v cs)"
  by (auto simp add: wellFormed_def forwardVarsChanged_def split: option.splits)

lemma wellFormed_onerror: "wellFormed cs \<Longrightarrow> wellFormed (onerror url cs)"
  by (auto simp add: wellFormed_def onerror_def)

lemma funpow_invariant: "(\<And>x. I x \<Longrightarrow> I (f x)) \<Longrightarrow> I x \<Longrightarrow> I ((f ^^ n) x)"
  by (induction n) simp_all

lemma run_invariant:
  assumes "\<And>e s. e \<in> set es \<Longrightarrow> Q s \<Longrightarrow> Q (step objs e s)" and "Q s"
  shows "Q (run objs es s)"
  using assms unfolding run_def
  by (induction es arbitrary: s) simp_all

lemma run_append: "run objs (es @ es') s = run objs es' (run objs es s)"
  by (simp add: run_def)

lemma run_snoc: "run objs (es @ [e]) s = step objs e (run objs es s)"
  by (simp add: run_def)

lemma fold_invariant: "(\<And>u x. I x \<Longrightarrow> I (f u x)) \<Longrightarrow> I x \<Longrightarrow> I (fold f us x)"
  by (induction us arbitrary: x) simp_all

lemma at_step:
  assumes s: "\<And>cs. comps s c = Some cs \<Longrightarrow> I cs"
    and c: "comps (step objs e s) c = Some cs'"
    and mount: "\<And>p. e = Mount c p \<Longrightarrow> comps s c = None
                  \<Longrightarrow> I (snd (mount objs c p (page s)))"
    and render: "\<And>p cs. e = Render c p \<Longrightarrow> comps s c = Some cs \<Longrightarrow> mounted cs
                   \<Longrightarrow> I (snd (render objs c p (page s, cs)))"
    and unmount: "\<And>cs. I cs \<Longrightarrow> I (unmount cs)"
    and getJwt: "\<And>cs. I cs \<Longrightarrow> I (snd (getJwt cs))"
    and forward: "\<And>v cs. I cs \<Longrightarrow> I (forwardVarsChanged v cs)"
    and onload: "\<And>pg cs. I cs \<Longrightarrow> I (snd (onload objs c (pg, cs)))"
    and onerror: "\<And>url cs. I cs \<Longrightarrow> I (onerror url cs)"
  shows "I cs'"
proof (cases e)
  case (Mount d p)
  with c s mount show ?thesis
    by (auto simp add: step_comps simp del: step.simps split: if_splits)
next
  case (Render d p)
  with c s render show ?thesis
    by (auto simp add: step_comps simp del: step.simps split: if_splits)
next
  case (Unmount d)
  with c s unmount show ?thesis
    by (auto simp add: step_comps simp del: step.simps split: if_splits)
next
  case (GetJwt d)
  with c s getJwt show ?thesis
    by (auto simp add: step_comps simp del: step.simps split: if_splits)
next
  case (InstanceVarsChanged d v)
  with c s forward show ?thesis
    by (auto simp add: step_comps simp del: step.simps split: if_splits)
next
  case (ScriptLoaded k df)
  show ?thesis
  proof (cases "pending k (page s)")
    case False
    with c ScriptLoaded s show ?thesis
      by (simp add: step_comps del: step.simps)
  next
    case True
    with c ScriptLoaded obtain cs where cs: "comps s c = Some cs"
      and cs': "cs' = ((\<lambda>cs. snd (onload objs c (settle k Loaded df (page s), cs)))
                        ^^ length (heard c (listeners (scripts (page s) ! k)))) cs"
      by (auto simp add: step_comps simp del: step.simps)
    from s [OF cs] show ?thesis
      unfolding cs' by (rule funpow_invariant [rotated]) (rule onload)
  qed
next
  case (ScriptError k)
  show ?thesis
  proof (cases "pending k (page s)")
    case False
    with c ScriptError s show ?thesis
      by (simp add: step_comps del: step.simps)
  next
    case True
    with c ScriptError obtain cs where cs: "comps s c = Some cs"
      and cs': "cs' = fold onerror (heard c (listeners (scripts (page s) ! k))) cs"
      by (auto simp add: step_comps simp del: step.simps)
    from s [OF cs] show ?thesis
      unfolding cs' by (rule fold_invariant [rotated]) (rule onerror)
  qed
next
  case (Answer a)
  with c s show ?thesis
    by (simp add: step_comps del: step.simps)
next
  case (OtherLoaded n)
  with c s onload show ?thesis
    by (auto simp add: step_comps simp del: step.simps split: if_splits)
next
  case (OtherError n)
  with c s onerror show ?thesis
    by (auto simp add: step_comps simp del: step.simps split: if_splits)
qed

lemma each_step:
  assumes s: "each I s"
    and mount: "\<And>c p pg. I (snd (mount objs c p pg))"
    and render: "\<And>c p pg cs. I cs \<Longrightarrow> mounted cs \<Longrightarrow> I (snd (render objs c p (pg, cs)))"
    and unmount: "\<And>cs. I cs \<Longrightarrow> I (unmount cs)"
    and getJwt: "\<And>cs. I cs \<Longrightarrow> I (snd (getJwt cs))"
    and forward: "\<And>v cs. I cs \<Longrightarrow> I (forwardVarsChanged v cs)"
    and onload: "\<And>c pg cs. I cs \<Longrightarrow> I (snd (onload objs c (pg, cs)))"
    and onerror: "\<And>url cs. I cs \<Longrightarrow> I (onerror url cs)"
  shows "each I (step objs e s)"
  unfolding each_def
proof (intro allI impI)
  fix c cs'
  assume c: "comps (step objs e s) c = Some cs'"
  have old: "I cs" if "comps s c = Some cs" for cs
    using s that by (simp add: each_def)
  show "I cs'"
    by (rule at_step [where I = I, OF old c])
       (simp_all add: old mount render unmount getJwt forward onload onerror)
qed

lemma each_wellFormed_step: "each wellFormed s \<Longrightarrow> each wellFormed (step objs e s)"
  by (rule each_step)
     (simp_all add: wellFormed_mount wellFormed_render wellFormed_unmount wellFormed_getJwt
        wellFormed_forwardVarsChanged wellFormed_onload wellFormed_onerror)

lemma reachable_wellFormed:
  "comps (run objs es start) c = Some cs \<Longrightarrow> wellFormed cs"
proof -
  have "each wellFormed start"
    by (simp add: each_def start_def)
  then have "each wellFormed (run objs es start)"
    by (rule run_invariant [rotated]) (rule each_wellFormed_step)
  then show "comps (run objs es start) c = Some cs \<Longrightarrow> wellFormed cs"
    by (simp add: each_def)
qed

subsection \<open>The life of the instance\<close>

lemma count_list_distinct: "distinct xs \<Longrightarrow> count_list xs x = (if x \<in> set xs then 1 else 0)"
  by (induction xs) auto

lemma cleanupDashboard_idem:
  "cleanupDashboard (cleanupDashboard cs) = cleanupDashboard cs"
  "dashboardRef cs = None \<Longrightarrow> cleanupDashboard cs = cs"
  by (simp_all add: cleanupDashboard_def split: option.splits)

lemma step_keeps_components: "comps s d \<noteq> None \<Longrightarrow> comps (step objs e s) d \<noteq> None"
  by (cases e) (auto simp add: step_comps simp del: step.simps split: option.splits)

lemma keepsInstance_queued [simp]:
  "keepsInstance i b (cs\<lparr>setScriptLoadedQueued := q\<rparr>) = keepsInstance i b cs"
  by (simp add: keepsInstance_def)

lemma wellFormed_cleanup_loaded: "wellFormed cs \<Longrightarrow> cleanup cs \<Longrightarrow> scriptLoaded cs"
  by (auto simp add: wellFormed_def optList_def)

lemma keepsInstance_commit:
  assumes k: "keepsInstance i b cs" and m: "mounted cs"
    and sl: "scriptLoaded cs \<longrightarrow> sl" and first: "first \<longrightarrow> \<not> sl"
    and p: "id_prop p = i" "baseUrl p = b"
  shows "keepsInstance i b (snd (commit objs first c p sl (pg, cs)))"
proof -
  from k have wf: "wellFormed cs" by (simp add: keepsInstance_def)
  have u: "\<not> undoes first p sl cs"
    using wellFormed_cleanup_loaded [OF wf] k sl first p
    by (auto simp add: undoes_def initDeps_def keepsInstance_def)
  have mk: "instances cs = 0" if "makes first p sl pg cs"
    using that wf k sl first p
    by (auto simp add: makes_def initDeps_def keepsInstance_def wellFormed_def)
  from wellFormed_commit [OF wf m sl] k u mk p show ?thesis
    unfolding keepsInstance_def commit_destroyed commit_fields commit_lifecycle
    by (auto simp add: pick_def given_def)
qed

lemma keepsInstance_flushState:
  assumes "keepsInstance i b (snd pc)"
  shows "keepsInstance i b (snd (flushState objs c pc))"
proof (cases pc)
  case (Pair pg cs)
  with assms show ?thesis
    by (auto simp add: flushState_def intro!: keepsInstance_commit)
       (simp_all add: keepsInstance_def)
qed

lemma keepsInstance_mount:
  "id_prop p = i \<Longrightarrow> baseUrl p = b \<Longrightarrow> keepsInstance i b (snd (mount objs c p pg))"
  unfolding mount_def
  by (intro keepsInstance_flushState keepsInstance_commit)
     (simp_all add: keepsInstance_def wellFormed_initial, simp_all add: initial_def)

lemma keepsInstance_render:
  "keepsInstance i b cs \<Longrightarrow> mounted cs \<Longrightarrow> id_prop p = i \<Longrightarrow> baseUrl p = b
   \<Longrightarrow> keepsInstance i b (snd (render objs c p (pg, cs)))"
  unfolding render_def
  by (simp add: keepsInstance_flushState keepsInstance_commit)

lemma keepsInstance_others:
  assumes "keepsInstance i b cs"
  shows "keepsInstance i b (unmount cs)"
    and "keepsInstance i b (snd (getJwt cs))"
    and "keepsInstance i b (forwardVarsChanged v cs)"
    and "keepsInstance i b (snd (onload objs c (pg, cs)))"
    and "keepsInstance i b (onerror url cs)"
proof -
  from assms have wf: "wellFormed cs" by (simp add: keepsInstance_def)
  show "keepsInstance i b (unmount cs)"
    using assms wellFormed_unmount [OF wf]
    by (auto simp add: keepsInstance_def unmount_def whenever_def cleanupDashboard_def
        split: option.splits)
  show "keepsInstance i b (snd (getJwt cs))"
    using assms wellFormed_getJwt [OF wf] by (auto simp add: keepsInstance_def getJwt_def)
  show "keepsInstance i b (forwardVarsChanged v cs)"
    using assms wellFormed_forwardVarsChanged [OF wf, of v]
    by (auto simp add: keepsInstance_def forwardVarsChanged_def split: option.splits)
  show "keepsInstance i b (snd (onload objs c (pg, cs)))"
    using assms unfolding onload_def by (simp add: keepsInstance_flushState)
  show "keepsInstance i b (onerror url cs)"
    using assms wellFormed_onerror [OF wf, of url] by (auto simp add: keepsInstance_def onerror_def)
qed

text \<open>While \<^verbatim>\<open>id\<close> and \<^verbatim>\<open>baseUrl\<close> stay the same, a component makes at most one instance and
  destroys nothing while it is mounted.\<close>

lemma reachable_keepsInstance:
  assumes "comps (run objs es start) c = Some cs"
    and same: "\<forall>e \<in> set es. \<forall>p. propsOf c e = Some p \<longrightarrow> id_prop p = i \<and> baseUrl p = b"
  shows "keepsInstance i b cs"
proof -
  have "\<forall>cs. comps (run objs es start) c = Some cs \<longrightarrow> keepsInstance i b cs"
  proof (rule run_invariant)
    show "\<forall>cs. comps start c = Some cs \<longrightarrow> keepsInstance i b cs"
      by (simp add: start_def)
  next
    fix e and s :: system
    assume e: "e \<in> set es"
      and s: "\<forall>cs. comps s c = Some cs \<longrightarrow> keepsInstance i b cs"
    show "\<forall>cs. comps (step objs e s) c = Some cs \<longrightarrow> keepsInstance i b cs"
    proof (intro allI impI)
      fix cs' assume c': "comps (step objs e s) c = Some cs'"
      have old: "keepsInstance i b cs" if "comps s c = Some cs" for cs
        using s that by blast
      show "keepsInstance i b cs'"
      proof (rule at_step [where I = "keepsInstance i b", OF old c'])
        fix p assume "e = Mount c p"
        with e same show "keepsInstance i b (snd (mount objs c p (page s)))"
          by (auto intro: keepsInstance_mount)
      next
        fix p cs assume "e = Render c p" "comps s c = Some cs" "mounted cs"
        with e same old show "keepsInstance i b (snd (render objs c p (page s, cs)))"
          by (auto intro: keepsInstance_render)
      qed (simp_all add: keepsInstance_others)
    qed
  qed
  with assms(1) show ?thesis by simp
qed

text \<open>Once a component is unmounted and holds no instance, no event makes it call the
  factory or \<^verbatim>\<open>destroy\<close>.\<close>

lemma unmounted_step:
  assumes "\<not> mounted cs \<and> dashboardRef cs = None \<and> constructed (calls cs) = made
      \<and> destroyed (calls cs) = gone"
  shows "\<not> mounted (unmount cs) \<and> dashboardRef (unmount cs) = None
      \<and> constructed (calls (unmount cs)) = made \<and> destroyed (calls (unmount cs)) = gone"
    and "\<not> mounted (snd (getJwt cs)) \<and> dashboardRef (snd (getJwt cs)) = None
      \<and> constructed (calls (snd (getJwt cs))) = made \<and> destroyed (calls (snd (getJwt cs))) = gone"
    and "\<not> mounted (forwardVarsChanged v cs) \<and> dashboardRef (forwardVarsChanged v cs) = None
      \<and> constructed (calls (forwardVarsChanged v cs)) = made
      \<and> destroyed (calls (forwardVarsChanged v cs)) = gone"
    and "\<not> mounted (snd (onload objs c (pg, cs))) \<and> dashboardRef (snd (onload objs c (pg, cs))) = None
      \<and> constructed (calls (snd (onload objs c (pg, cs)))) = made
      \<and> destroyed (calls (snd (onload objs c (pg, cs)))) = gone"
    and "\<not> mounted (onerror url cs) \<and> dashboardRef (onerror url cs) = None
      \<and> constructed (calls (onerror url cs)) = made \<and> destroyed (calls (onerror url cs)) = gone"
  using assms
  by (simp_all add: unmount_eq pick_simps given_simps optList_def getJwt_def forwardVarsChanged_def
      onload_def flushState_def onerror_def split: option.splits)

lemma unmounted_run:
  assumes "comps s c = Some cs" and "\<not> mounted cs" and "dashboardRef cs = None"
  shows "\<exists>cs'. comps (run objs es s) c = Some cs' \<and> \<not> mounted cs' \<and> dashboardRef cs' = None
    \<and> constructed (calls cs') = constructed (calls cs)
    \<and> destroyed (calls cs') = destroyed (calls cs)"
proof (rule run_invariant [where Q = "\<lambda>s. \<exists>cs'. comps s c = Some cs' \<and> \<not> mounted cs'
    \<and> dashboardRef cs' = None \<and> constructed (calls cs') = constructed (calls cs)
    \<and> destroyed (calls cs') = destroyed (calls cs)"])
  show "\<exists>cs'. comps s c = Some cs' \<and> \<not> mounted cs' \<and> dashboardRef cs' = None
    \<and> constructed (calls cs') = constructed (calls cs)
    \<and> destroyed (calls cs') = destroyed (calls cs)"
    using assms by simp
next
  fix e and s' :: system
  assume "\<exists>cs'. comps s' c = Some cs' \<and> \<not> mounted cs' \<and> dashboardRef cs' = None
    \<and> constructed (calls cs') = constructed (calls cs)
    \<and> destroyed (calls cs') = destroyed (calls cs)"
  then obtain cs0 where cs0: "comps s' c = Some cs0"
    and dead: "\<not> mounted cs0 \<and> dashboardRef cs0 = None
      \<and> constructed (calls cs0) = constructed (calls cs)
      \<and> destroyed (calls cs0) = destroyed (calls cs)"
    by blast
  from cs0 have "comps (step objs e s') c \<noteq> None"
    using step_keeps_components [of s' c objs e] by simp
  then obtain cs1 where cs1: "comps (step objs e s') c = Some cs1"
    by blast
  let ?I = "\<lambda>x :: component. \<not> mounted x \<and> dashboardRef x = None
      \<and> constructed (calls x) = constructed (calls cs)
      \<and> destroyed (calls x) = destroyed (calls cs)"
  have old: "?I x" if "comps s' c = Some x" for x
    using that cs0 dead by simp
  have "?I cs1"
  proof (rule at_step [where I = ?I and s = s' and c = c and objs = objs and e = e])
    fix x assume "comps s' c = Some x"
    then show "?I x" by (rule old)
  next
    show "comps (step objs e s') c = Some cs1" by (rule cs1)
  next
    fix p assume "comps s' c = None"
    with cs0 show "?I (snd (mount objs c p (page s')))"
      by simp
  next
    fix p x assume "comps s' c = Some x" "mounted x"
    with cs0 dead show "?I (snd (render objs c p (page s', x)))"
      by simp
  next
    fix x assume x: "?I x"
    show "?I (unmount x)" by (rule unmounted_step [OF x])
    show "?I (snd (getJwt x))" by (rule unmounted_step [OF x])
    fix v show "?I (forwardVarsChanged v x)" by (rule unmounted_step [OF x])
  next
    fix pg x assume x: "?I x"
    show "?I (snd (onload objs c (pg, x)))" by (rule unmounted_step [OF x])
  next
    fix url x assume x: "?I x"
    show "?I (onerror url x)" by (rule unmounted_step [OF x])
  qed
  with cs1 show "\<exists>cs'. comps (step objs e s') c = Some cs' \<and> \<not> mounted cs'
    \<and> dashboardRef cs' = None \<and> constructed (calls cs') = constructed (calls cs)
    \<and> destroyed (calls cs') = destroyed (calls cs)"
    by blast
qed

text \<open>
  Claim C7, amended. Take a mounted component in a state the page can reach. The
  \<^verbatim>\<open>Unmount\<close> event runs \<open>unmount\<close>, which calls \<^verbatim>\<open>destroy\<close> on the live instance if there
  is one, makes no other call, and leaves no instance. Whatever happens after the unmount,
  the component makes and destroys no further instance: at the end, the instances that
  were destroyed are exactly the ones that were made, each of them once, and none if none
  was made. If \<^verbatim>\<open>id\<close> and \<^verbatim>\<open>baseUrl\<close> did not change during the lifetime, at most one
  instance was made and nothing was destroyed before the unmount, so \<^verbatim>\<open>destroy\<close> is called
  exactly once if the instance was made, by the unmount. The cleanup does nothing without
  an instance, and running it, or unmounting, a second time adds no call.
\<close>

theorem unmount_destroys_each_instance_once:
  assumes "comps (run objs es start) c = Some cs" and "mounted cs"
    and "comps (run objs (es @ Unmount c # es') start) c = Some cs'"
  shows "comps (step objs (Unmount c) (run objs es start)) c = Some (unmount cs)
    \<and> calls (unmount cs) = calls cs @ map Destroy (optList (dashboardRef cs))
    \<and> dashboardRef (unmount cs) = None
    \<and> constructed (calls cs') = constructed (calls cs)
    \<and> destroyed (calls cs') = constructed (calls cs)
    \<and> distinct (constructed (calls cs))
    \<and> ((\<forall>e \<in> set es. \<forall>p. propsOf c e = Some p \<longrightarrow> id_prop p = i \<and> baseUrl p = b) \<longrightarrow>
          destroyed (calls cs) = [] \<and> constructed (calls cs) = optList (dashboardRef cs))
    \<and> (dashboardRef cs = None \<longrightarrow> cleanupDashboard cs = cs)
    \<and> cleanupDashboard (cleanupDashboard cs) = cleanupDashboard cs
    \<and> calls (unmount (unmount cs)) = calls (unmount cs)"
proof -
  let ?s = "run objs es start"
  from assms(1) have wf: "wellFormed cs" by (rule reachable_wellFormed)
  then have eq: "constructed (calls cs) = destroyed (calls cs) @ optList (dashboardRef cs)"
    and up: "constructed (calls cs) = [0 ..< instances cs]"
    and cl: "cleanup cs = (dashboardRef cs \<noteq> None)"
    unfolding wellFormed_def by blast+
  have event: "comps (step objs (Unmount c) ?s) c = Some (unmount cs)"
    using assms(1,2) by (simp add: step_comps del: step.simps)
  have un: "calls (unmount cs) = calls cs @ map Destroy (optList (dashboardRef cs))"
    "dashboardRef (unmount cs) = None" "\<not> mounted (unmount cs)"
    using cl by (cases "dashboardRef cs"; simp add: unmount_eq pick_def given_def optList_def)+
  have twice: "calls (unmount (unmount cs)) = calls (unmount cs)"
    by (simp add: unmount_eq given_simps)
  have "run objs (es @ Unmount c # es') start = run objs es' (step objs (Unmount c) ?s)"
    by (simp add: run_def)
  with unmounted_run [OF event un(3,2), of objs es'] assms(3)
  have "constructed (calls cs') = constructed (calls (unmount cs))"
    and "destroyed (calls cs') = destroyed (calls (unmount cs))"
    by auto
  with un(1) eq have after: "constructed (calls cs') = constructed (calls cs)"
    "destroyed (calls cs') = constructed (calls cs)"
    by simp_all
  have d: "distinct (constructed (calls cs))"
    unfolding up by simp
  have same: "destroyed (calls cs) = [] \<and> constructed (calls cs) = optList (dashboardRef cs)"
    if "\<forall>e \<in> set es. \<forall>p. propsOf c e = Some p \<longrightarrow> id_prop p = i \<and> baseUrl p = b"
  proof -
    from reachable_keepsInstance [OF assms(1) that] assms(2)
    have "destroyed (calls cs) = []"
      by (simp add: keepsInstance_def)
    with eq show ?thesis by simp
  qed
  from event un(1,2) after d same twice show ?thesis
    by (simp add: cleanupDashboard_idem)
qed

theorem unmount_destroys_each_instance_once_witness:
  "calls (the (comps (run exampleStore
      ([Mount 0 exampleProps, ScriptLoaded 0 True] @ Unmount 0 # [Unmount 0, ScriptError 0])
      start) 0))
     = [Dashboard 0 ''http://h'' ''d1'' (Some 1), Destroy 0]
   \<and> destroyed (calls (the (comps (run exampleStore
      ([Mount 0 exampleProps] @ Unmount 0 # [ScriptLoaded 0 True]) start) 0))) = []"
proof -
  let ?es = "[Mount 0 exampleProps, ScriptLoaded 0 True]"
  let ?s = "run exampleStore ?es start"
  let ?s' = "run exampleStore (?es @ Unmount 0 # [Unmount 0, ScriptError 0]) start"
  let ?t = "run exampleStore [Mount 0 exampleProps] start"
  let ?t' = "run exampleStore ([Mount 0 exampleProps] @ Unmount 0 # [ScriptLoaded 0 True]) start"
  have "comps ?s 0 \<noteq> None" by code_simp
  then have h1: "comps ?s 0 = Some (the (comps ?s 0))" by simp
  have h2: "mounted (the (comps ?s 0))" by code_simp
  have "comps ?s' 0 \<noteq> None" by code_simp
  then have h3: "comps ?s' 0 = Some (the (comps ?s' 0))" by simp
  have "comps ?t 0 \<noteq> None" by code_simp
  then have k1: "comps ?t 0 = Some (the (comps ?t 0))" by simp
  have k2: "mounted (the (comps ?t 0))" by code_simp
  have "comps ?t' 0 \<noteq> None" by code_simp
  then have k3: "comps ?t' 0 = Some (the (comps ?t' 0))" by simp
  have e1: "constructed (calls (the (comps ?s 0))) = [0]" by code_simp
  have e2: "constructed (calls (the (comps ?t 0))) = []" by code_simp
  have e3: "calls (the (comps ?s' 0)) = [Dashboard 0 ''http://h'' ''d1'' (Some 1), Destroy 0]"
    by code_simp
  from unmount_destroys_each_instance_once [OF h1 h2 h3]
    unmount_destroys_each_instance_once [OF k1 k2 k3] e1 e2 e3
  show ?thesis by simp
qed

text \<open>
  The claim as it is written fails for a lifetime in which the dashboard identifier
  changes: two instances are made, and \<^verbatim>\<open>destroy\<close> is called twice between the mount and
  the unmount, once by the render with the new \<^verbatim>\<open>id\<close> and once by the unmount.
\<close>

theorem two_instances_are_destroyed_in_one_lifetime:
  "calls (the (comps (run exampleStore
      [Mount 0 exampleProps, ScriptLoaded 0 True,
       Render 0 (exampleProps\<lparr>id_prop := ''d2''\<rparr>), Unmount 0] start) 0))
     = [Dashboard 0 ''http://h'' ''d1'' (Some 1), Destroy 0,
        Dashboard 1 ''http://h'' ''d2'' (Some 1), Destroy 1]"
  by code_simp

subsection \<open>Making the instance again\<close>






subsection \<open>Variables seen before the instance exists\<close>

text \<open>
  \<open>varsKept\<close> is the invariant of the two refs of a mounted component, for a store that
  does not change: the stored snapshot has the properties of the \<^verbatim>\<open>vars\<close> prop of the
  latest render, and the stored text is its serialisation.
  \<open>passesLatest cs cs'\<close> says that \<open>cs'\<close> has the calls of \<open>cs\<close> and then some, in which
  every factory call passes a snapshot with the properties of the latest \<^verbatim>\<open>vars\<close> prop.
\<close>

lemma factoryVars_simps [simp]:
  "factoryVars [] = []"
  "factoryVars (x # xs) = factoryVar x @ factoryVars xs"
  "factoryVars (xs @ ys) = factoryVars xs @ factoryVars ys"
  by (simp_all add: factoryVars_def)

lemma factoryVars_map [simp]:
  "factoryVars (map (\<lambda>r. Resolve r j) q) = []"
  "factoryVars (map Destroy ds) = []"
  "factoryVars (map (\<lambda>i. Update i v) ds) = []"
  by (induction q, simp_all) (induction ds, simp_all)+

lemma factoryVars_given [simp]: "factoryVars (given b xs) = given b (factoryVars xs)"
  by (simp add: given_def)

lemma varsKept_queued [simp]:
  "varsKept objs (cs\<lparr>setScriptLoadedQueued := q\<rparr>) = varsKept objs cs"
  by (simp add: varsKept_def)




lemma passesLatest_queued [simp]:
  "passesLatest objs cs (cs'\<lparr>setScriptLoadedQueued := q\<rparr>) = passesLatest objs cs cs'"
  "passesLatest objs (cs\<lparr>setScriptLoadedQueued := q\<rparr>) cs' = passesLatest objs cs cs'"
  by (simp_all add: passesLatest_def)














subsection \<open>The script elements of the document\<close>





lemma querySelector_range:
  "querySelector url pg = Inr (Some (Script k)) \<Longrightarrow> k < length (scripts pg)"
  by (auto simp add: querySelector_def find_Some_iff
      split: if_splits sum.splits option.splits element.splits)

text \<open>What a request does to the page: nothing, or it appends a script element, or it adds
  a handler to a script element or to another element.\<close>

lemma request_cases:
  obtains (same) "factory pg \<or> querySelector url pg = Inl SyntaxError" "request c url pg = pg"
    | (new) "\<not> factory pg" "querySelector url pg = Inr None"
        "request c url pg = pg\<lparr>scripts := scripts pg @
           [\<lparr>src = url, status = Pending, listeners = [(c, url)]\<rparr>]\<rparr>"
    | (script) k where "\<not> factory pg" "querySelector url pg = Inr (Some (Script k))"
        "k < length (scripts pg)"
        "request c url pg =
           pg\<lparr>scripts := (scripts pg)[k := addEventListener (c, url) (scripts pg ! k)]\<rparr>"
    | (other) "\<not> factory pg" "querySelector url pg = Inr (Some Other)"
        "request c url pg = pg\<lparr>others := others pg @ [(c, url)]\<rparr>"
proof (cases "factory pg")
  case True
  then show ?thesis by (simp add: request_def same)
next
  case nf: False
  show ?thesis
  proof (cases "querySelector url pg")
    case (Inl e)
    with nf show ?thesis by (simp add: request_def same)
  next
    case (Inr r)
    show ?thesis
    proof (cases r)
      case None
      with nf Inr show ?thesis by (simp add: request_def new)
    next
      case (Some el)
      show ?thesis
      proof (cases el)
        case (Script k)
        with nf Inr Some querySelector_range [of url pg k] show ?thesis
          by (simp add: request_def script)
      next
        case Other
        with nf Inr Some show ?thesis by (simp add: request_def other)
      qed
    qed
  qed
qed

lemma map_update_same: "(map f ts)[k := f (ts ! k)] = map f ts"
  by (cases "k < length ts") (simp_all add: list_eq_iff_nth_eq nth_list_update)

lemma addEventListener_fields [simp]:
  "src (addEventListener l t) = src t"
  "status (addEventListener l t) = status t"
  "listeners (addEventListener l t) = listeners t @ [l]"
  by (simp_all add: addEventListener_def)




lemma settle_fields [simp]:
  "length (scripts (settle k st df pg)) = length (scripts pg)"
  "others (settle k st df pg) = others pg"
  "engine (settle k st df pg) = engine pg"
  "factory (settle k st df pg) = (factory pg \<or> df)"
  "map src (scripts (settle k st df pg)) = map src (scripts pg)"
  by (simp_all add: settle_def map_update map_update_same)









subsection \<open>The one handler of a component\<close>

lemma loadErrors_simps [simp]:
  "loadErrors [] = []"
  "loadErrors (x # xs) = loadError x @ loadErrors xs"
  "loadErrors (xs @ ys) = loadErrors xs @ loadErrors ys"
  by (simp_all add: loadErrors_def)

lemma loadErrors_map [simp]:
  "loadErrors (map (\<lambda>r. Resolve r j) q) = []"
  "loadErrors (map Destroy ds) = []"
  "loadErrors (map (\<lambda>i. Update i v) ds) = []"
  by (induction q, simp_all) (induction ds, simp_all)+

lemma loadErrors_LoadError [simp]:
  "loadErrors (map (\<lambda>u. LoadError f (g u)) us) = map g us"
  by (induction us) simp_all

lemma loadErrors_given [simp]: "loadErrors (given b xs) = given b (loadErrors xs)"
  by (simp add: given_def)


lemma mount_calls: "\<not> factory pg \<Longrightarrow> calls (snd (mount objs c p pg)) = []"
  by (simp add: mount_def flushState_lifecycle commit_fields commit_lifecycle rerenders_def
      pick_def given_def initial_def makes_def undoes_def supplies_def optList_def)

lemma mount_mounted:
  "mounted (snd (mount objs c p pg)) = (\<not> throws (scriptUrl (baseUrl p)) pg)"
  by (simp add: mount_def flushState_fields commit_fields pick_def initial_def crashes_def)





text \<open>The handlers of one component on the page, after a request of the same or of another
  component.\<close>

lemma heard_simps [simp]:
  "heard c [] = []"
  "heard c (l # ls) = (if fst l = c then snd l # heard c ls else heard c ls)"
  "heard c (ls @ ms) = heard c ls @ heard c ms"
  by (simp_all add: heard_def)

lemma hears_settle [simp]:
  "hears c (settle k st df pg) j = hears c pg j"
  by (cases "k < length (scripts pg)"; cases "j = k")
     (simp_all add: hears_def settle_def nth_list_update list_update_beyond)

lemma hears_engine [simp]: "hears c (pg\<lparr>engine := a\<rparr>) j = hears c pg j"
  by (simp add: hears_def)



lemma request_new_pending:
  assumes "j < length (scripts (request d url pg))" and "\<not> j < length (scripts pg)"
  shows "status (scripts (request d url pg) ! j) = Pending"
    and "src (scripts (request d url pg) ! j) = url"
    and "listeners (scripts (request d url pg) ! j) = [(d, url)]"
    and "querySelector url pg = Inr None" and "\<not> factory pg"
    and "length (scripts (request d url pg)) = Suc (length (scripts pg))"
  using assms
  by (cases d url pg rule: request_cases; auto simp add: nth_append request_def)+




lemma single_settle [simp]: "single c b (settle k st df pg) = single c b pg"
  by (simp add: single_def)

lemma silent_settle [simp]: "silent c (settle k st df pg) = silent c pg"
  by (simp add: silent_def)

lemma single_engine [simp]: "single c b (pg\<lparr>engine := a\<rparr>) = single c b pg"
  by (simp add: single_def)

lemma silent_engine [simp]: "silent c (pg\<lparr>engine := a\<rparr>) = silent c pg"
  by (simp add: silent_def)























lemma settled_not_pending: "settled c k s \<Longrightarrow> \<not> pending k (page s)"
  by (simp add: settled_def pending_def)




subsection \<open>The handlers on a script element\<close>












end
